theory Spec2Isabelle
  imports Complex_Main "HOL-Library.Word"
begin

section \<open>Rational numbers and sparse rows\<close>

text \<open>
  The solver computes over \<open>mpq\<close>, arbitrary precision rationals; they are the type
  \<^typ>\<open>rat\<close> here. \<open>is_int\<close> is \<open>mpq::is_int\<close>.
\<close>

type_synonym mpq = rat

definition is_int :: "mpq \<Rightarrow> bool" where
  "is_int q = (of_int \<lfloor>q\<rfloor> = q)"

text \<open>
  Modelled from the spec: \<open>gcd\<close> on \<open>mpq\<close> is declared outside this file; the spec
  uses it on integer-valued rationals only ("g = gcd(|E[i]|)"), where it is the gcd of the
  integers.
\<close>

definition gcd_mpq :: "mpq \<Rightarrow> mpq \<Rightarrow> mpq" where
  "gcd_mpq a b = of_int (gcd \<lfloor>a\<rfloor> \<lfloor>b\<rfloor>)"

text \<open>
  A row of a \<open>static_matrix\<close> (and the coefficient list of a \<open>lar_term\<close>) is the
  sequence of its cells in storage order, each a pair of the column (variable) and the
  coefficient. \<open>get_coeff\<close> reads a coefficient, \<open>0\<close> for an absent variable.
\<close>

type_synonym row_cell = "nat \<times> mpq"
type_synonym row_strip = "row_cell list"

definition get_coeff :: "row_strip \<Rightarrow> nat \<Rightarrow> mpq" where
  "get_coeff r j = (case map_of r j of None \<Rightarrow> 0 | Some a \<Rightarrow> a)"

definition contains_var :: "row_strip \<Rightarrow> nat \<Rightarrow> bool" where
  "contains_var r j = (map_of r j \<noteq> None)"

section \<open>Pivot selection: \<open>find_minimal_abs_coeff\<close>\<close>

text \<open>
  The loop of \<open>find_minimal_abs_coeff\<close> over the cells of a row. The accumulator is
  \<open>None\<close> while \<open>first\<close> is true (then \<open>ahk\<close>, \<open>k\<close> and \<open>k_sign\<close> are not yet
  assigned) and \<open>Some (ahk, k, k_sign)\<close> afterwards. The \<open>break\<close> on \<open>ahk.is_one()\<close>
  returns the accumulator at once.
\<close>

fun find_minimal_abs_coeff_loop ::
  "(mpq \<times> nat \<times> int) option \<Rightarrow> row_strip \<Rightarrow> (mpq \<times> nat \<times> int) option" where
  "find_minimal_abs_coeff_loop acc [] = acc"
| "find_minimal_abs_coeff_loop acc ((j, a) # ps) =
     (let t = \<bar>a\<bar> in
      if (case acc of None \<Rightarrow> True | Some (ahk, k, ks) \<Rightarrow> t < ahk \<or> (t = ahk \<and> j < k))
      then (if t = 1 then Some (t, j, if 0 < a then 1 else - 1)
            else find_minimal_abs_coeff_loop (Some (t, j, if 0 < a then 1 else - 1)) ps)
      else find_minimal_abs_coeff_loop acc ps)"

definition find_minimal_abs_coeff :: "row_strip \<Rightarrow> (mpq \<times> nat \<times> int) option" where
  "find_minimal_abs_coeff r = find_minimal_abs_coeff_loop None r"

text \<open>A row of the E-matrix: distinct variables, non-zero integer coefficients.\<close>

definition int_row :: "row_strip \<Rightarrow> bool" where
  "int_row r = (distinct (map fst r) \<and> list_all (\<lambda>p. is_int (snd p) \<and> snd p \<noteq> 0) r)"

text \<open>The first variable of a row, in storage order, whose coefficient is \<open>1\<close> or \<open>-1\<close>.\<close>

fun first_unit :: "row_strip \<Rightarrow> nat option" where
  "first_unit [] = None"
| "first_unit ((j, a) # ps) = (if \<bar>a\<bar> = 1 then Some j else first_unit ps)"

section \<open>The gcd of a row: \<open>gcd_of_coeffs\<close>\<close>

fun gcd_of_coeffs_loop :: "mpq \<Rightarrow> row_strip \<Rightarrow> mpq" where
  "gcd_of_coeffs_loop g [] = g"
| "gcd_of_coeffs_loop g ((j, a) # ps) =
     (let g' = (if g = 0 then \<bar>a\<bar> else gcd_mpq g a) in
      if g' = 1 then g' else gcd_of_coeffs_loop g' ps)"

definition gcd_of_coeffs :: "row_strip \<Rightarrow> mpq" where
  "gcd_of_coeffs r = gcd_of_coeffs_loop 0 r"


section \<open>Terms with a constant: \<open>lar_term\<close> and \<open>term_o\<close>\<close>

text \<open>
  Modelled from the spec: \<open>lar_term\<close> is declared outside this file. It is a finite
  map from variables to non-zero coefficients; \<open>add_monomial\<close> adds to the coefficient
  of a variable and drops the variable when the sum is zero. The map is kept as the list
  of its cells, a new variable going to the end.
\<close>

fun add_monomial :: "mpq \<Rightarrow> nat \<Rightarrow> row_strip \<Rightarrow> row_strip" where
  "add_monomial c j [] = (if c = 0 then [] else [(j, c)])"
| "add_monomial c j ((i, a) # r) =
     (if c = 0 then (i, a) # r
      else if i = j then (if a + c = 0 then r else (i, a + c) # r)
      else (i, a) # add_monomial c j r)"

text \<open>\<open>add_scaled k src dst\<close> is \<open>dst += k * src\<close>, one \<open>add_monomial\<close> per cell of \<open>src\<close>.\<close>

fun add_scaled :: "mpq \<Rightarrow> row_strip \<Rightarrow> row_strip \<Rightarrow> row_strip" where
  "add_scaled k [] dst = dst"
| "add_scaled k ((j, a) # ps) dst = add_scaled k ps (add_monomial (k * a) j dst)"

definition erase_var :: "nat \<Rightarrow> row_strip \<Rightarrow> row_strip" where
  "erase_var j r = filter (\<lambda>p. fst p \<noteq> j) r"

record term_o =
  t_coeffs :: row_strip
  t_c :: mpq

definition term_zero :: term_o where
  "term_zero = \<lparr>t_coeffs = [], t_c = 0\<rparr>"

text \<open>\<open>operator*\<close> (a scalar times a term), \<open>operator+=\<close> and \<open>operator==\<close> of \<open>term_o\<close>.\<close>

definition term_scale :: "mpq \<Rightarrow> term_o \<Rightarrow> term_o" where
  "term_scale k t = \<lparr>t_coeffs = add_scaled k (t_coeffs t) [], t_c = k * t_c t\<rparr>"

definition term_add :: "term_o \<Rightarrow> term_o \<Rightarrow> term_o" where
  "term_add a b = \<lparr>t_coeffs = add_scaled 1 (t_coeffs b) (t_coeffs a), t_c = t_c a + t_c b\<rparr>"

definition term_eq :: "term_o \<Rightarrow> term_o \<Rightarrow> bool" where
  "term_eq a b = (let t = term_add a (term_scale (- 1) b) in t_c t = 0 \<and> t_coeffs t = [])"

text \<open>
  Modelled from the spec: \<open>machine_div_rem\<close> is declared outside this file; the spec
  describes the division as truncated toward zero, with \<open>b = q * a + r\<close>.
\<close>

definition machine_div_rem :: "mpq \<Rightarrow> mpq \<Rightarrow> mpq \<times> mpq" where
  "machine_div_rem a b =
     (let x = a / b; q = (if 0 \<le> x then of_int \<lfloor>x\<rfloor> else of_int \<lceil>x\<rceil>)
      in (q, a - q * b))"

section \<open>The matrices\<close>

text \<open>
  Modelled from the spec: \<open>static_matrix\<close> is declared outside this file. The model
  keeps the rows, each the list of its cells, and the number of columns; a column is the
  set of the rows that hold its variable. The operations are those that section 4.2 of the
  specification lists.
\<close>

record static_matrix =
  m_rows :: "row_strip list"
  n_columns :: nat

definition row_count :: "static_matrix \<Rightarrow> nat" where
  "row_count m = length (m_rows m)"

definition add_row :: "static_matrix \<Rightarrow> static_matrix" where
  "add_row m = m\<lparr>m_rows := m_rows m @ [[]]\<rparr>"

definition add_columns_up_to :: "nat \<Rightarrow> static_matrix \<Rightarrow> static_matrix" where
  "add_columns_up_to j m = m\<lparr>n_columns := max (n_columns m) (j + 1)\<rparr>"

definition add_new_element :: "nat \<Rightarrow> nat \<Rightarrow> mpq \<Rightarrow> static_matrix \<Rightarrow> static_matrix" where
  "add_new_element i j v m = m\<lparr>m_rows := (m_rows m)[i := m_rows m ! i @ [(j, v)]]\<rparr>"

definition divide_row_cells :: "mpq \<Rightarrow> row_strip \<Rightarrow> row_strip" where
  "divide_row_cells g r = map (\<lambda>p. (fst p, snd p / g)) r"

definition multiply_row :: "nat \<Rightarrow> mpq \<Rightarrow> static_matrix \<Rightarrow> static_matrix" where
  "multiply_row i a m = m\<lparr>m_rows := (m_rows m)[i := map (\<lambda>p. (fst p, snd p * a)) (m_rows m ! i)]\<rparr>"

text \<open>\<open>add_rows a src dst\<close> is \<open>row[dst] += a * row[src]\<close>.\<close>

definition add_rows :: "mpq \<Rightarrow> nat \<Rightarrow> nat \<Rightarrow> static_matrix \<Rightarrow> static_matrix" where
  "add_rows a src dst m =
     m\<lparr>m_rows := (m_rows m)[dst := add_scaled a (m_rows m ! src) (m_rows m ! dst)]\<rparr>"

text \<open>
  \<open>pivot_row_to_row_given_cell_with_sign ei i j j_sign\<close> uses row \<open>ei\<close>, whose
  coefficient of \<open>j\<close> is \<open>j_sign\<close>, to remove \<open>j\<close> from row \<open>i\<close>:
  \<open>row_i \<leftarrow> row_i - j_sign * c * row_ei\<close> with \<open>c\<close> the coefficient of \<open>j\<close> in row \<open>i\<close>.
\<close>

definition pivot_row_to_row_given_cell_with_sign ::
  "nat \<Rightarrow> nat \<Rightarrow> nat \<Rightarrow> int \<Rightarrow> static_matrix \<Rightarrow> static_matrix" where
  "pivot_row_to_row_given_cell_with_sign ei i j j_sign m =
     add_rows (- (of_int j_sign * get_coeff (m_rows m ! i) j)) ei i m"

text \<open>The rows that hold variable \<open>j\<close>: the cells of column \<open>j\<close>.\<close>

definition column_rows :: "static_matrix \<Rightarrow> nat \<Rightarrow> nat list" where
  "column_rows m j = filter (\<lambda>i. contains_var (m_rows m ! i) j) [0 ..< length (m_rows m)]"

section \<open>The host solver\<close>

text \<open>
  The linear-arithmetic solver (\<open>lar_solver\<close>, \<open>int_solver\<close>) is outside this file. Its
  state is a type parameter \<open>'h\<close>, and what the solver reads from it and does to it is a
  record of functions. Dependencies (\<open>u_dependency\<close>) are lists of constraint indices,
  joined by concatenation. A status of the host (\<open>lp_status\<close>) is the integer of the
  enumeration, and the two values the solver compares with are fields of the record.
\<close>

type_synonym constraint_index = nat
type_synonym u_dependency = "constraint_index list"
type_synonym lp_status = int

datatype lconstraint_kind = LE | LT | GE | GT | EQ | NE

record 'h host =
  column_count :: "'h \<Rightarrow> nat"
  get_term :: "'h \<Rightarrow> nat \<Rightarrow> row_strip"
  column_has_term :: "'h \<Rightarrow> nat \<Rightarrow> bool"
  column_is_int :: "'h \<Rightarrow> nat \<Rightarrow> bool"
  column_is_fixed :: "'h \<Rightarrow> nat \<Rightarrow> bool"
  column_is_free :: "'h \<Rightarrow> nat \<Rightarrow> bool"
  column_is_int_inf :: "'h \<Rightarrow> nat \<Rightarrow> bool"
  get_lower_bound :: "'h \<Rightarrow> nat \<Rightarrow> mpq"
  get_upper_bound :: "'h \<Rightarrow> nat \<Rightarrow> mpq"
  has_bound_of_type :: "'h \<Rightarrow> nat \<Rightarrow> bool \<Rightarrow> (u_dependency \<times> mpq \<times> bool) option"
  get_column_value :: "'h \<Rightarrow> nat \<Rightarrow> mpq"
  r_basis :: "'h \<Rightarrow> nat list"
  update_column_type_and_bound :: "nat \<Rightarrow> lconstraint_kind \<Rightarrow> mpq \<Rightarrow> u_dependency \<Rightarrow> 'h \<Rightarrow> 'h"
  add_var_bound :: "nat \<Rightarrow> lconstraint_kind \<Rightarrow> mpq \<Rightarrow> 'h \<Rightarrow> 'h"
  push :: "'h \<Rightarrow> 'h"
  pop :: "'h \<Rightarrow> 'h"
  find_feasible_solution :: "'h \<Rightarrow> lp_status \<times> 'h"
  get_infeasibility_explanation :: "'h \<Rightarrow> constraint_index list"
  get_column_upper_bound_witness :: "'h \<Rightarrow> nat \<Rightarrow> u_dependency"
  get_column_lower_bound_witness :: "'h \<Rightarrow> nat \<Rightarrow> u_dependency"
  get_bound_constraint_witnesses_for_column :: "'h \<Rightarrow> nat \<Rightarrow> u_dependency"
  valid_index :: "'h \<Rightarrow> constraint_index \<Rightarrow> bool"
  random_next :: "'h \<Rightarrow> nat \<times> 'h"
  dio_cut_from_proof_period :: "'h \<Rightarrow> nat"
  FEASIBLE :: lp_status
  CANCELLED :: lp_status

definition mk_join :: "u_dependency \<Rightarrow> u_dependency \<Rightarrow> u_dependency" where
  "mk_join a b = a @ b"

definition flatten :: "u_dependency \<Rightarrow> constraint_index list" where
  "flatten d = remdups d"

text \<open>
  \<open>ext_coeffs\<close> of the term of column \<open>j\<close>: its monomials and then \<open>-1 * j\<close>
  (the equation of a term column is \<open>term - j = 0\<close>).
\<close>

definition ext_coeffs :: "'h host \<Rightarrow> 'h \<Rightarrow> nat \<Rightarrow> row_strip" where
  "ext_coeffs H h j = get_term H h j @ [(j, - 1)]"

section \<open>The state of the solver\<close>

definition UINT_MAX :: nat where
  "UINT_MAX = 4294967295"

datatype entry_status = F | S | NO_S_NO_F

record entry =
  m_c :: mpq
  m_entry_status :: entry_status

datatype lia_move = lia_sat | lia_branch | lia_conflict | lia_undef | lia_cancelled

record branch =
  m_j :: nat
  m_rs :: mpq
  m_left :: bool
  m_fully_explored :: bool

record variable_branch_stats =
  m_ii_after_left :: "nat list"
  m_ii_after_right :: "nat list"

record statistics =
  m_dio_calls :: nat
  m_dio_cut_from_proofs :: nat
  m_dio_normalize_conflicts :: nat
  m_dio_rewrite_conflicts :: nat
  m_dio_tighten_conflicts :: nat
  m_dio_branch_iterations :: nat
  m_dio_branching_sats :: nat
  m_dio_branching_infeasibles :: nat
  m_dio_branching_depth :: nat

text \<open>
  The fields of \<open>dioph_eq::imp\<close>. Unsigned fields that use \<open>-1\<close> as "none" hold
  \<^const>\<open>UINT_MAX\<close> there. The variable register is the list of the external ids by
  local id, \<^const>\<open>UINT_MAX\<close> for a fresh variable. A term (\<open>const lar_term*\<close>) is
  named by its column. The pending cut of \<open>int_solver\<close> (\<open>lia.get_term()\<close>,
  \<open>lia.offset()\<close>, \<open>lia.is_upper()\<close>) and the statistics of the host that the solver
  writes are fields too.
\<close>

record 'h imp =
  m_var_register :: "nat list"
  m_entries :: "entry list"
  m_e_matrix :: static_matrix
  m_l_matrix :: static_matrix
  lia_term :: row_strip
  lia_offset :: mpq
  lia_is_upper :: bool
  lra :: 'h
  stats :: statistics
  m_infeas_explanation :: "constraint_index list"
  m_indexed_work_vector :: row_strip
  m_report_branch :: bool
  m_f :: "nat list"
  m_s :: "nat list"
  imp_m_c :: mpq
  m_tmp_l :: row_strip
  m_k2s :: "nat list"
  m_fresh_definitions :: "(nat \<times> nat) list"
  m_conflict_index :: nat
  m_max_number_of_iterations :: nat
  m_number_of_iterations :: nat
  m_changed_columns :: "nat list"
  m_columns_to_terms :: "(nat \<times> nat list) list"
  m_added_terms :: "nat list"
  m_active_terms :: "nat list"
  m_branch_stats :: "variable_branch_stats list"
  m_branch_stack :: "branch list"
  m_explanation_of_branches :: "constraint_index list"
  m_lra_level :: "32 word"

text \<open>\<open>std::vector::resize(n, v)\<close>: shorter vectors are padded with \<open>v\<close>, longer ones cut.\<close>

definition resize :: "nat \<Rightarrow> 'a \<Rightarrow> 'a list \<Rightarrow> 'a list" where
  "resize n v xs = take n xs @ replicate (n - length xs) v"

subsection \<open>The variable register\<close>

text \<open>
  Modelled from the spec: \<open>var_register_dio\<close> is declared outside this file
  (section 4.1): \<open>add_var\<close> gives the local id of an external id, a new one when the
  external id is unknown or is \<^const>\<open>UINT_MAX\<close> (a fresh variable).
\<close>

definition external_is_used :: "nat list \<Rightarrow> nat \<Rightarrow> bool" where
  "external_is_used reg j = (j \<noteq> UINT_MAX \<and> j \<in> set reg)"

definition external_to_local :: "nat list \<Rightarrow> nat \<Rightarrow> nat" where
  "external_to_local reg j = length (takeWhile (\<lambda>x. x \<noteq> j) reg)"

definition local_to_external :: "nat list \<Rightarrow> nat \<Rightarrow> nat" where
  "local_to_external reg j = (if j < length reg then reg ! j else UINT_MAX)"

definition add_var :: "nat \<Rightarrow> nat list \<Rightarrow> nat \<times> nat list" where
  "add_var j reg =
     (if external_is_used reg j then (external_to_local reg j, reg)
      else (length reg, reg @ [j]))"

definition is_fresh_var :: "'h imp \<Rightarrow> nat \<Rightarrow> bool" where
  "is_fresh_var s j = (local_to_external (m_var_register s) j = UINT_MAX)"

definition local_to_lar_solver :: "'h imp \<Rightarrow> nat \<Rightarrow> nat" where
  "local_to_lar_solver s j = local_to_external (m_var_register s) j"

definition lar_solver_to_local :: "'h imp \<Rightarrow> nat \<Rightarrow> nat" where
  "lar_solver_to_local s j = external_to_local (m_var_register s) j"

definition can_substitute :: "'h imp \<Rightarrow> nat \<Rightarrow> bool" where
  "can_substitute s k = (k < length (m_k2s s) \<and> m_k2s s ! k \<noteq> UINT_MAX)"

definition is_fixed :: "'h host \<Rightarrow> 'h imp \<Rightarrow> nat \<Rightarrow> bool" where
  "is_fixed H s j = column_is_fixed H (lra s) j"

abbreviation e_row :: "'h imp \<Rightarrow> nat \<Rightarrow> row_strip" where
  "e_row s i \<equiv> m_rows (m_e_matrix s) ! i"

abbreviation l_row :: "'h imp \<Rightarrow> nat \<Rightarrow> row_strip" where
  "l_row s i \<equiv> m_rows (m_l_matrix s) ! i"

section \<open>The entry invariant\<close>

definition get_term_from_entry :: "'h imp \<Rightarrow> nat \<Rightarrow> term_o" where
  "get_term_from_entry s i =
     \<lparr>t_coeffs = add_scaled 1 (e_row s i) [], t_c = m_c (m_entries s ! i)\<rparr>"

definition term_to_lar_solver :: "'h imp \<Rightarrow> term_o \<Rightarrow> term_o" where
  "term_to_lar_solver s t =
     \<lparr>t_coeffs = add_scaled 1 (map (\<lambda>p. (local_to_lar_solver s (fst p), snd p)) (t_coeffs t)) [],
      t_c = t_c t\<rparr>"

text \<open>
  \<open>fix_vars\<close> replaces the fixed variables of a term by their values (the lower bound
  of a fixed column). \<open>fix_vars_loop\<close> is its loop over the monomials.
\<close>

fun fix_vars_loop :: "'h host \<Rightarrow> 'h imp \<Rightarrow> row_strip \<Rightarrow> term_o \<Rightarrow> term_o" where
  "fix_vars_loop H s [] ret = ret"
| "fix_vars_loop H s ((j, a) # ps) ret =
     fix_vars_loop H s ps
       (if is_fixed H s j then ret\<lparr>t_c := t_c ret + a * get_lower_bound H (lra s) j\<rparr>
        else ret\<lparr>t_coeffs := add_monomial a j (t_coeffs ret)\<rparr>)"

definition fix_vars :: "'h host \<Rightarrow> 'h imp \<Rightarrow> row_strip \<Rightarrow> term_o" where
  "fix_vars H s t = fix_vars_loop H s t term_zero"

text \<open>
  \<open>open_ml\<close> expands a row of the L-matrix through the terms of the host:
  \<open>r += p.coeff() * (lra.get_term(p.var()) - lar_term(p.var()))\<close> for every cell \<open>p\<close>.
  The constant of the result stays zero.
\<close>

fun open_ml_loop :: "'h host \<Rightarrow> 'h imp \<Rightarrow> row_strip \<Rightarrow> row_strip \<Rightarrow> row_strip" where
  "open_ml_loop H s [] r = r"
| "open_ml_loop H s ((j, a) # ps) r =
     open_ml_loop H s ps
       (add_scaled 1
          (add_scaled a (add_monomial (- 1) j (add_scaled 1 (get_term H (lra s) j) [])) [])
          r)"

definition open_ml :: "'h host \<Rightarrow> 'h imp \<Rightarrow> row_strip \<Rightarrow> row_strip" where
  "open_ml H s ml = open_ml_loop H s ml []"

text \<open>
  \<open>remove_fresh_vars\<close> replaces every fresh variable of a term by the rest of the row
  that defines it. The queue holds the fresh variables seen. The loop ends only if the
  definitions are not circular, so it is a partial function: \<open>None\<close> stands for a run that
  does not return.
\<close>

definition fresh_vars_of :: "'h imp \<Rightarrow> row_strip \<Rightarrow> nat list" where
  "fresh_vars_of s r = filter (is_fresh_var s) (map fst r)"

partial_function (option) remove_fresh_vars_loop ::
  "'h imp \<Rightarrow> nat list \<Rightarrow> term_o \<Rightarrow> term_o option" where
  "remove_fresh_vars_loop s q t =
     (case q of
        [] \<Rightarrow> Some t
      | xt # q' \<Rightarrow>
          (let fresh_t0 = get_term_from_entry s (fst (m_fresh_definitions s ! xt));
               fresh_t = fresh_t0\<lparr>t_coeffs := erase_var xt (t_coeffs fresh_t0)\<rparr>
           in if \<not> contains_var (t_coeffs t) xt then remove_fresh_vars_loop s q' t
              else (let xt_coeff = get_coeff (t_coeffs t) xt;
                        t1 = t\<lparr>t_coeffs := erase_var xt (t_coeffs t)\<rparr>;
                        t2 = term_add t1 (term_scale xt_coeff fresh_t)
                    in remove_fresh_vars_loop s (q' @ fresh_vars_of s (t_coeffs t2)) t2)))"

definition remove_fresh_vars :: "'h imp \<Rightarrow> term_o \<Rightarrow> term_o option" where
  "remove_fresh_vars s tt = remove_fresh_vars_loop s (fresh_vars_of s (t_coeffs tt)) tt"

text \<open>
  \<open>entry_invariant ei\<close>: the coefficients of E-row \<open>ei\<close> are integers, and the row
  with its constant, fresh variables removed and local ids mapped to the host's, equals
  the L-row opened through the host's terms with the fixed variables replaced.
\<close>

definition entry_invariant :: "'h host \<Rightarrow> 'h imp \<Rightarrow> nat \<Rightarrow> bool" where
  "entry_invariant H s ei =
     (list_all (\<lambda>p. is_int (snd p)) (e_row s ei) \<and>
      (case remove_fresh_vars s (get_term_from_entry s ei) of
         None \<Rightarrow> False
       | Some t \<Rightarrow> term_eq (term_to_lar_solver s t) (fix_vars H s (open_ml H s (l_row s ei)))))"

definition entries_are_ok :: "'h host \<Rightarrow> 'h imp \<Rightarrow> bool" where
  "entries_are_ok H s = list_all (entry_invariant H s) [0 ..< length (m_entries s)]"

section \<open>Normalization by the gcd\<close>

definition has_fresh_var :: "'h imp \<Rightarrow> nat \<Rightarrow> bool" where
  "has_fresh_var s row_index = list_ex (\<lambda>p. is_fresh_var s (fst p)) (e_row s row_index)"

text \<open>
  \<open>prepare_lia_branch_report\<close> adds, for every cell of E-row \<open>ei\<close>, the monomial
  \<open>coeff / g\<close> of the host variable to the pending cut term, and sets the offset
  \<open>floor(-new_c)\<close>, the direction and \<open>m_report_branch\<close>.
\<close>

definition prepare_lia_branch_report :: "nat \<Rightarrow> mpq \<Rightarrow> mpq \<Rightarrow> 'h imp \<Rightarrow> 'h imp" where
  "prepare_lia_branch_report ei g new_c s =
     s\<lparr>lia_term :=
          add_scaled 1 (map (\<lambda>p. (local_to_lar_solver s (fst p), snd p / g)) (e_row s ei))
            (lia_term s),
       lia_offset := of_int \<lfloor>- new_c\<rfloor>,
       lia_is_upper := True,
       m_report_branch := True\<rparr>"

text \<open>
  \<open>normalize_e_by_gcd ei\<close> returns whether there is no conflict, and the state. On a
  conflict the code computes the remainder of the unsigned \<open>m_dio_calls\<close> by the unsigned
  \<open>dio_cut_from_proof_period()\<close>; with a period of zero that remainder is a fault of the
  machine, and the function has no result (\<open>None\<close>).
\<close>

definition normalize_e_by_gcd :: "'h host \<Rightarrow> nat \<Rightarrow> 'h imp \<Rightarrow> (bool \<times> 'h imp) option" where
  "normalize_e_by_gcd H ei s =
     (let g = gcd_of_coeffs (e_row s ei) in
      if g = 0 \<or> g = 1 then Some (True, s)
      else
        (let c_g = m_c (m_entries s ! ei) / g in
         if is_int c_g then
           Some (True,
            s\<lparr>m_e_matrix := (m_e_matrix s)\<lparr>m_rows :=
                  (m_rows (m_e_matrix s))[ei := divide_row_cells g (e_row s ei)]\<rparr>,
              m_entries := (m_entries s)[ei := (m_entries s ! ei)\<lparr>m_c := c_g\<rparr>],
              m_l_matrix := (m_l_matrix s)\<lparr>m_rows :=
                  (m_rows (m_l_matrix s))[ei := divide_row_cells g (l_row s ei)]\<rparr>\<rparr>)
         else if dio_cut_from_proof_period H (lra s) = 0 then None
         else if m_dio_calls (stats s) mod dio_cut_from_proof_period H (lra s) = 0
                 \<and> \<not> has_fresh_var s ei
         then Some (False, prepare_lia_branch_report ei g c_g s)
         else Some (False, s)))"

text \<open>
  The loop of \<open>normalize_by_gcd\<close> over the list \<open>m_f\<close>: it stops at the first row that
  fails and stores its index in \<open>m_conflict_index\<close>.
\<close>

fun normalize_by_gcd_loop :: "'h host \<Rightarrow> nat list \<Rightarrow> 'h imp \<Rightarrow> (bool \<times> 'h imp) option" where
  "normalize_by_gcd_loop H [] s = Some (True, s)"
| "normalize_by_gcd_loop H (l # ls) s =
     (case normalize_e_by_gcd H l s of
        None \<Rightarrow> None
      | Some (ok, s') \<Rightarrow>
          if \<not> ok then Some (False, s'\<lparr>m_conflict_index := l\<rparr>)
          else normalize_by_gcd_loop H ls s')"

definition normalize_by_gcd :: "'h host \<Rightarrow> 'h imp \<Rightarrow> (bool \<times> 'h imp) option" where
  "normalize_by_gcd H s = normalize_by_gcd_loop H (m_f s) s"

section \<open>The rewrite engine\<close>

text \<open>
  One pivot of \<open>eliminate_var_in_f\<close>: row \<open>i\<close> holds \<open>j\<close> with coefficient \<open>coeff\<close>;
  the constant, the E-row and the L-row of \<open>i\<close> lose \<open>j_sign * coeff\<close> times those of \<open>ei\<close>.
\<close>

definition eliminate_var_in_row :: "nat \<Rightarrow> nat \<Rightarrow> int \<Rightarrow> nat \<Rightarrow> 'h imp \<Rightarrow> 'h imp" where
  "eliminate_var_in_row ei j j_sign i s =
     (let coeff = get_coeff (e_row s i) j in
      s\<lparr>m_entries := (m_entries s)[i := (m_entries s ! i)
            \<lparr>m_c := m_c (m_entries s ! i) - of_int j_sign * coeff * m_c (m_entries s ! ei)\<rparr>],
        m_e_matrix := pivot_row_to_row_given_cell_with_sign ei i j j_sign (m_e_matrix s),
        m_l_matrix := add_rows (- (of_int j_sign) * coeff) ei i (m_l_matrix s)\<rparr>)"

text \<open>
  The loop of \<open>eliminate_var_in_f\<close> walks the cells of column \<open>j\<close> from the last to the
  second (the first is the pivot row \<open>ei\<close>) and pivots the rows whose status is \<open>F\<close>.
\<close>

fun eliminate_var_in_f_loop :: "nat \<Rightarrow> nat \<Rightarrow> int \<Rightarrow> nat list \<Rightarrow> 'h imp \<Rightarrow> 'h imp" where
  "eliminate_var_in_f_loop ei j j_sign [] s = s"
| "eliminate_var_in_f_loop ei j j_sign (i # cells) s =
     (if m_entry_status (m_entries s ! i) \<noteq> F
      then eliminate_var_in_f_loop ei j j_sign cells s
      else eliminate_var_in_f_loop ei j j_sign cells (eliminate_var_in_row ei j j_sign i s))"

definition eliminate_var_in_f :: "nat \<Rightarrow> nat \<Rightarrow> int \<Rightarrow> 'h imp \<Rightarrow> 'h imp" where
  "eliminate_var_in_f ei j j_sign s =
     eliminate_var_in_f_loop ei j j_sign
       (rev (filter (\<lambda>i. i \<noteq> ei) (column_rows (m_e_matrix s) j))) s"

definition move_entry_from_f_to_s :: "nat \<Rightarrow> nat \<Rightarrow> 'h imp \<Rightarrow> 'h imp" where
  "move_entry_from_f_to_s k h s =
     (let k2s = (if k \<ge> length (m_k2s s) then resize (k + 1) UINT_MAX (m_k2s s) else m_k2s s) in
      s\<lparr>m_entries := (m_entries s)[h := (m_entries s ! h)\<lparr>m_entry_status := S\<rparr>],
        m_s := m_s s @ [h],
        m_k2s := k2s[k := h],
        m_f := removeAll h (m_f s)\<rparr>)"

text \<open>
  The loop of \<open>fresh_var_step\<close> over the work vector: every coefficient \<open>ai\<close> but that
  of \<open>k\<close> is divided by \<open>ahk\<close>; the remainder goes to row \<open>h\<close>, the quotient to the
  fresh row.
\<close>

fun fresh_var_step_loop ::
  "nat \<Rightarrow> nat \<Rightarrow> nat \<Rightarrow> mpq \<Rightarrow> row_strip \<Rightarrow> static_matrix \<Rightarrow> static_matrix" where
  "fresh_var_step_loop h fresh_row k ahk [] m = m"
| "fresh_var_step_loop h fresh_row k ahk ((i, ai) # ps) m =
     (if i = k then fresh_var_step_loop h fresh_row k ahk ps m
      else
        (let (q, r) = machine_div_rem ai ahk;
             m1 = (if r \<noteq> 0 then add_new_element h i r m else m);
             m2 = (if q \<noteq> 0 then add_new_element fresh_row i q m1 else m1)
         in fresh_var_step_loop h fresh_row k ahk ps m2))"

definition fresh_var_step :: "nat \<Rightarrow> nat \<Rightarrow> mpq \<Rightarrow> 'h imp \<Rightarrow> 'h imp" where
  "fresh_var_step h k ahk s =
     (let work = e_row s h;
          e0 = (m_e_matrix s)\<lparr>m_rows := (m_rows (m_e_matrix s))[h := []]\<rparr>;
          (xt, reg) = add_var UINT_MAX (m_var_register s);
          fresh_row = row_count e0;
          e1 = add_row e0;
          e2 = e1\<lparr>n_columns := max (n_columns e1) (xt + 1)\<rparr>;
          (q, r) = machine_div_rem (m_c (m_entries s ! h)) ahk;
          entries1 = (m_entries s)[h := (m_entries s ! h)\<lparr>m_c := r\<rparr>];
          e3 = add_new_element h xt ahk e2;
          entries2 = entries1 @ [\<lparr>m_c = q, m_entry_status = NO_S_NO_F\<rparr>];
          e4 = add_new_element fresh_row xt (- 1) e3;
          e5 = add_new_element fresh_row k 1 e4;
          e6 = fresh_var_step_loop h fresh_row k ahk work e5;
          k2s = (resize (k + 1) UINT_MAX (m_k2s s))[k := fresh_row];
          fds = (resize (xt + 1) (UINT_MAX, UINT_MAX) (m_fresh_definitions s))[xt := (fresh_row, h)]
      in eliminate_var_in_f fresh_row k 1
           (s\<lparr>m_indexed_work_vector := work,
              m_var_register := reg,
              m_e_matrix := e6,
              m_entries := entries2,
              m_l_matrix := add_row (m_l_matrix s),
              m_k2s := k2s,
              m_fresh_definitions := fds\<rparr>))"

text \<open>
  The scan of \<open>rewrite_eqs\<close> for the first row of \<open>m_f\<close> with a non-empty E-row. Rows
  with an empty E-row and a zero constant are erased from the list on the way; an empty
  E-row with a non-zero constant is a conflict. The result is the list that is left, the
  row found (\<^const>\<open>UINT_MAX\<close> if none) and the conflict index.
\<close>

fun rewrite_eqs_scan :: "'h imp \<Rightarrow> nat list \<Rightarrow> nat list \<times> nat \<times> nat" where
  "rewrite_eqs_scan s [] = ([], UINT_MAX, m_conflict_index s)"
| "rewrite_eqs_scan s (i # f) =
     (if e_row s i = [] then
        (if m_c (m_entries s ! i) = 0 then rewrite_eqs_scan s f
         else (i # f, UINT_MAX, i))
      else (i # f, i, m_conflict_index s))"

definition rewrite_eqs :: "'h imp \<Rightarrow> 'h imp" where
  "rewrite_eqs s =
     (let (f, h, ci) = rewrite_eqs_scan s (m_f s);
          s1 = s\<lparr>m_f := f, m_conflict_index := ci\<rparr>
      in if h = UINT_MAX then s1
         else (case find_minimal_abs_coeff (e_row s1 h) of
                 None \<Rightarrow> s1
               | Some (ahk, k, k_sign) \<Rightarrow>
                   if ahk = 1 then eliminate_var_in_f h k k_sign (move_entry_from_f_to_s k h s1)
                   else fresh_var_step h k (ahk * of_int k_sign) s1))"

text \<open>
  \<open>process_f\<close> loops while \<open>m_f\<close> is not empty. Nothing in the code bounds the number
  of rounds, so it is a partial function: \<open>None\<close> stands for a run that does not return,
  because the loop does not end or because \<open>normalize_by_gcd\<close> faults.
\<close>

partial_function (option) process_f :: "'h host \<Rightarrow> 'h imp \<Rightarrow> (lia_move \<times> 'h imp) option" where
  "process_f H s =
     (if m_f s = [] then Some (lia_undef, s)
      else
        (case normalize_by_gcd H s of
           None \<Rightarrow> None
         | Some (ok, s1) \<Rightarrow>
             if \<not> ok then
               (if m_report_branch s1
                then Some (lia_branch,
                           s1\<lparr>stats := (stats s1)\<lparr>m_dio_cut_from_proofs := m_dio_cut_from_proofs (stats s1) + 1\<rparr>,
                              m_report_branch := False\<rparr>)
                else Some (lia_conflict,
                           s1\<lparr>stats := (stats s1)\<lparr>m_dio_normalize_conflicts := m_dio_normalize_conflicts (stats s1) + 1\<rparr>\<rparr>))
             else
               (let s2 = rewrite_eqs s1 in
                if m_conflict_index s2 \<noteq> UINT_MAX
                then Some (lia_conflict,
                           s2\<lparr>stats := (stats s2)\<lparr>m_dio_rewrite_conflicts := m_dio_rewrite_conflicts (stats s2) + 1\<rparr>\<rparr>)
                else process_f H s2)))"

section \<open>Explanations\<close>

fun explain_fixed_loop :: "'h host \<Rightarrow> 'h imp \<Rightarrow> row_strip \<Rightarrow> u_dependency \<Rightarrow> u_dependency" where
  "explain_fixed_loop H s [] dep = dep"
| "explain_fixed_loop H s ((j, a) # ps) dep =
     explain_fixed_loop H s ps
       (if is_fixed H s j
        then mk_join dep (get_bound_constraint_witnesses_for_column H (lra s) j)
        else dep)"

definition explain_fixed :: "'h host \<Rightarrow> 'h imp \<Rightarrow> row_strip \<Rightarrow> u_dependency" where
  "explain_fixed H s t = explain_fixed_loop H s t []"

definition explain_fixed_in_meta_term :: "'h host \<Rightarrow> 'h imp \<Rightarrow> row_strip \<Rightarrow> u_dependency" where
  "explain_fixed_in_meta_term H s t = explain_fixed H s (open_ml H s t)"

text \<open>\<open>explain\<close> appends to the explanation \<open>ex\<close> it is given.\<close>

definition explain :: "'h host \<Rightarrow> 'h imp \<Rightarrow> constraint_index list \<Rightarrow> constraint_index list" where
  "explain H s ex =
     (if m_conflict_index s = UINT_MAX then ex @ m_infeas_explanation s
      else ex @ flatten (explain_fixed_in_meta_term H s (l_row s (m_conflict_index s))))"

section \<open>The initial state and an example host\<close>

text \<open>
  The state that the constructor of \<open>imp\<close> leaves: empty containers and the default
  member initializers of the class.
\<close>

definition imp_init :: "'h \<Rightarrow> 'h imp" where
  "imp_init h =
     \<lparr>m_var_register = [], m_entries = [],
      m_e_matrix = \<lparr>m_rows = [], n_columns = 0\<rparr>,
      m_l_matrix = \<lparr>m_rows = [], n_columns = 0\<rparr>,
      lia_term = [], lia_offset = 0, lia_is_upper = False,
      lra = h,
      stats = \<lparr>m_dio_calls = 0, m_dio_cut_from_proofs = 0, m_dio_normalize_conflicts = 0,
               m_dio_rewrite_conflicts = 0, m_dio_tighten_conflicts = 0,
               m_dio_branch_iterations = 0, m_dio_branching_sats = 0,
               m_dio_branching_infeasibles = 0, m_dio_branching_depth = 0\<rparr>,
      m_infeas_explanation = [], m_indexed_work_vector = [], m_report_branch = False,
      m_f = [], m_s = [], imp_m_c = 0, m_tmp_l = [], m_k2s = [], m_fresh_definitions = [],
      m_conflict_index = UINT_MAX, m_max_number_of_iterations = 100,
      m_number_of_iterations = 0, m_changed_columns = [], m_columns_to_terms = [],
      m_added_terms = [], m_active_terms = [], m_branch_stats = [], m_branch_stack = [],
      m_explanation_of_branches = [], m_lra_level = 0\<rparr>"

text \<open>
  A host for the concrete instances below. Its state lists the terms, the fixed columns
  with their values, the bounds, the values and the basis, the integer-infeasible columns,
  the bounds the solver has pushed (a log), and the answers it gives in turn to
  \<open>find_feasible_solution\<close> and \<open>random_next\<close>.
\<close>

record toy =
  toy_terms :: "(nat \<times> row_strip) list"
  toy_fixed :: "(nat \<times> mpq) list"
  toy_upper :: "(nat \<times> mpq) list"
  toy_lower :: "(nat \<times> mpq) list"
  toy_values :: "(nat \<times> mpq) list"
  toy_basis :: "nat list"
  toy_int_inf :: "nat list"
  toy_log :: "(nat \<times> lconstraint_kind \<times> mpq) list"
  toy_statuses :: "int list"
  toy_randoms :: "nat list"
  toy_period :: nat
  toy_depth :: nat

definition assoc :: "('a \<times> 'b) list \<Rightarrow> 'a \<Rightarrow> 'b \<Rightarrow> 'b" where
  "assoc xs k d = (case map_of xs k of None \<Rightarrow> d | Some v \<Rightarrow> v)"

definition toy_host :: "toy host" where
  "toy_host =
     \<lparr>column_count = (\<lambda>h. length (toy_values h)),
      get_term = (\<lambda>h j. assoc (toy_terms h) j []),
      column_has_term = (\<lambda>h j. map_of (toy_terms h) j \<noteq> None),
      column_is_int = (\<lambda>h j. True),
      column_is_fixed = (\<lambda>h j. map_of (toy_fixed h) j \<noteq> None),
      column_is_free = (\<lambda>h j. map_of (toy_upper h) j = None \<and> map_of (toy_lower h) j = None
                              \<and> map_of (toy_fixed h) j = None),
      column_is_int_inf = (\<lambda>h j. j \<in> set (toy_int_inf h)),
      get_lower_bound = (\<lambda>h j. assoc (toy_fixed h) j (assoc (toy_lower h) j 0)),
      get_upper_bound = (\<lambda>h j. assoc (toy_fixed h) j (assoc (toy_upper h) j 0)),
      has_bound_of_type = (\<lambda>h j is_upper.
         map_option (\<lambda>v. ([j], v, False)) (map_of (if is_upper then toy_upper h else toy_lower h) j)),
      get_column_value = (\<lambda>h j. assoc (toy_values h) j 0),
      r_basis = toy_basis,
      update_column_type_and_bound = (\<lambda>j kind v dep h. h\<lparr>toy_log := toy_log h @ [(j, kind, v)]\<rparr>),
      add_var_bound = (\<lambda>j kind v h. h\<lparr>toy_log := toy_log h @ [(j, kind, v)]\<rparr>),
      push = (\<lambda>h. h\<lparr>toy_depth := toy_depth h + 1\<rparr>),
      pop = (\<lambda>h. h\<lparr>toy_depth := toy_depth h - 1\<rparr>),
      find_feasible_solution = (\<lambda>h. case toy_statuses h of
                                        [] \<Rightarrow> (6, h)
                                      | st # sts \<Rightarrow> (st, h\<lparr>toy_statuses := sts\<rparr>)),
      get_infeasibility_explanation = (\<lambda>h. map fst (toy_log h)),
      get_column_upper_bound_witness = (\<lambda>h j. [j]),
      get_column_lower_bound_witness = (\<lambda>h j. [j]),
      get_bound_constraint_witnesses_for_column = (\<lambda>h j. [j]),
      valid_index = (\<lambda>h ci. True),
      random_next = (\<lambda>h. case toy_randoms h of
                             [] \<Rightarrow> (0, h)
                           | r # rs \<Rightarrow> (r, h\<lparr>toy_randoms := rs\<rparr>)),
      dio_cut_from_proof_period = toy_period,
      FEASIBLE = 6,
      CANCELLED = 10\<rparr>"

definition toy_empty :: toy where
  "toy_empty =
     \<lparr>toy_terms = [], toy_fixed = [], toy_upper = [], toy_lower = [], toy_values = [],
      toy_basis = [], toy_int_inf = [], toy_log = [], toy_statuses = [], toy_randoms = [],
      toy_period = 1, toy_depth = 0\<rparr>"

text \<open>
  The state after the term \<open>x2 = 2 x0 + 4 x1\<close> is entered while column 2 is fixed at
  \<open>v\<close>: one F-row, \<open>2 x0 + 4 x1 - v = 0\<close>, whose L-row is the term of column 2.
\<close>

definition one_row_state :: "mpq \<Rightarrow> toy imp" where
  "one_row_state v =
     (imp_init (toy_empty\<lparr>toy_terms := [(2, [(0, 2), (1, 4)])], toy_fixed := [(2, v)]\<rparr>))
       \<lparr>m_var_register := [0, 1],
        m_entries := [\<lparr>m_c = - v, m_entry_status = F\<rparr>],
        m_e_matrix := \<lparr>m_rows = [[(0, 2), (1, 4)]], n_columns = 2\<rparr>,
        m_l_matrix := \<lparr>m_rows = [[(2, 1)]], n_columns = 3\<rparr>,
        m_f := [0]\<rparr>"

section \<open>The tightener\<close>

text \<open>
  \<open>fill_indexed_work_vector_from_term\<close> loads a term of the host into the work vector
  (over local ids); the fixed variables go to the constant \<open>m_c\<close>.
\<close>

fun fill_indexed_work_vector_loop :: "'h host \<Rightarrow> row_strip \<Rightarrow> 'h imp \<Rightarrow> 'h imp" where
  "fill_indexed_work_vector_loop H [] s = s"
| "fill_indexed_work_vector_loop H ((j, a) # ps) s =
     fill_indexed_work_vector_loop H ps
       (if is_fixed H s j
        then s\<lparr>imp_m_c := imp_m_c s + a * get_lower_bound H (lra s) j\<rparr>
        else s\<lparr>m_indexed_work_vector :=
                  m_indexed_work_vector s @ [(lar_solver_to_local s j, a)]\<rparr>)"

definition fill_indexed_work_vector_from_term :: "'h host \<Rightarrow> row_strip \<Rightarrow> 'h imp \<Rightarrow> 'h imp" where
  "fill_indexed_work_vector_from_term H lar_t s =
     fill_indexed_work_vector_loop H lar_t
       (s\<lparr>m_indexed_work_vector := [], imp_m_c := 0, m_tmp_l := []\<rparr>)"

text \<open>
  The loop of \<open>subs_front_in_indexed_vector\<close> over the cells of the substituting row:
  the work vector and the queue are threaded through.
\<close>

fun subs_row_loop ::
  "'h imp \<Rightarrow> nat \<Rightarrow> mpq \<Rightarrow> row_strip \<Rightarrow> row_strip \<times> nat list \<Rightarrow> row_strip \<times> nat list" where
  "subs_row_loop s k coeff [] wq = wq"
| "subs_row_loop s k coeff ((j, a) # ps) wq =
     (if j = k then subs_row_loop s k coeff ps wq
      else
        (let w' = add_monomial (a * coeff) j (fst wq) in
         subs_row_loop s k coeff ps
           (w', if \<not> is_fresh_var s j \<and> get_coeff w' j \<noteq> 0 \<and> can_substitute s j
                then snd wq @ [j] else snd wq)))"

definition subs_front_in_indexed_vector :: "'h imp \<Rightarrow> nat list \<Rightarrow> 'h imp \<times> nat list" where
  "subs_front_in_indexed_vector s q =
     (let k = hd q; q1 = tl q in
      if get_coeff (m_indexed_work_vector s) k = 0 then (s, q1)
      else
        (let e = m_entries s ! (m_k2s s ! k);
             coeff0 = get_coeff (m_indexed_work_vector s) k;
             w1 = erase_var k (m_indexed_work_vector s);
             row = e_row s (m_k2s s ! k);
             coeff = (if get_coeff row k = 1 then - coeff0 else coeff0);
             wq = subs_row_loop s k coeff row (w1, q1)
         in (s\<lparr>m_indexed_work_vector := fst wq,
               imp_m_c := imp_m_c s + coeff * m_c e,
               m_tmp_l := add_scaled 1
                            (add_scaled coeff (add_scaled 1 (l_row s (m_k2s s ! k)) []) [])
                            (m_tmp_l s)\<rparr>,
             snd wq)))"

text \<open>
  \<open>subs_indexed_vector_with_S\<close> runs while the queue is not empty; nothing in the
  code bounds the number of rounds.
\<close>

partial_function (option) subs_indexed_vector_with_S ::
  "'h imp \<Rightarrow> nat list \<Rightarrow> 'h imp option" where
  "subs_indexed_vector_with_S s q =
     (if q = [] then Some s
      else (let sq = subs_front_in_indexed_vector s q
            in subs_indexed_vector_with_S (fst sq) (snd sq)))"

definition all_vars_are_int :: "'h host \<Rightarrow> 'h imp \<Rightarrow> row_strip \<Rightarrow> bool" where
  "all_vars_are_int H s t = list_all (\<lambda>p. column_is_int H (lra s) (fst p)) t"

definition handle_constant_term_expl :: "'h host \<Rightarrow> nat \<Rightarrow> 'h imp \<Rightarrow> 'h imp" where
  "handle_constant_term_expl H j s =
     (let dep = mk_join (explain_fixed H s (get_term H (lra s) j))
                        (explain_fixed_in_meta_term H s (m_tmp_l s));
          dep' = mk_join dep (get_bound_constraint_witnesses_for_column H (lra s) j)
      in s\<lparr>m_infeas_explanation := m_infeas_explanation s @ flatten dep'\<rparr>)"

definition handle_constant_term :: "'h host \<Rightarrow> nat \<Rightarrow> 'h imp \<Rightarrow> 'h imp" where
  "handle_constant_term H j s =
     (if imp_m_c s = 0 then s
      else
        (case has_bound_of_type H (lra s) j True of
           Some (b_dep, rs, is_strict) \<Rightarrow>
             if imp_m_c s > rs \<or> (is_strict \<and> imp_m_c s = rs)
             then handle_constant_term_expl H j s
             else (case has_bound_of_type H (lra s) j False of
                     Some (b_dep', rs', is_strict') \<Rightarrow>
                       if imp_m_c s < rs' \<or> (is_strict' \<and> imp_m_c s = rs')
                       then handle_constant_term_expl H j s else s
                   | None \<Rightarrow> s)
         | None \<Rightarrow>
             (case has_bound_of_type H (lra s) j False of
                Some (b_dep', rs', is_strict') \<Rightarrow>
                  if imp_m_c s < rs' \<or> (is_strict' \<and> imp_m_c s = rs')
                  then handle_constant_term_expl H j s else s
              | None \<Rightarrow> s)))"

text \<open>
  \<open>tighten_bound_kind\<close>: the new bound is \<open>g * floor(ub) + m_c\<close> for an upper bound and
  \<open>g * ceil(ub) + m_c\<close> for a lower bound. It is pushed to the host with its dependency,
  and the host is asked for a feasible solution. The result is true only on a conflict.
\<close>

definition tighten_bound_kind ::
  "'h host \<Rightarrow> mpq \<Rightarrow> nat \<Rightarrow> mpq \<Rightarrow> bool \<Rightarrow> u_dependency \<Rightarrow> 'h imp \<Rightarrow> bool \<times> 'h imp" where
  "tighten_bound_kind H g j ub upper prev_dep s =
     (let bound = g * (if upper then of_int \<lfloor>ub\<rfloor> else of_int \<lceil>ub\<rceil>) + imp_m_c s;
          kind = (if upper then LE else GE);
          dep1 = mk_join prev_dep (explain_fixed_in_meta_term H s (m_tmp_l s));
          j_bound_dep = (if upper then get_column_upper_bound_witness H (lra s) j
                         else get_column_lower_bound_witness H (lra s) j);
          dep2 = mk_join dep1 j_bound_dep;
          dep3 = mk_join dep2 (explain_fixed H s (get_term H (lra s) j));
          dep4 = mk_join dep3 (get_bound_constraint_witnesses_for_column H (lra s) j);
          h1 = update_column_type_and_bound H j kind bound dep4 (lra s);
          (st, h2) = find_feasible_solution H h1;
          s2 = s\<lparr>lra := h2\<rparr>
      in if st \<ge> FEASIBLE H then (False, s2)
         else if st = CANCELLED H then (False, s2)
         else (True, s2\<lparr>m_infeas_explanation := get_infeasibility_explanation H h2\<rparr>))"

definition tighten_bounds_for_non_trivial_gcd ::
  "'h host \<Rightarrow> mpq \<Rightarrow> nat \<Rightarrow> bool \<Rightarrow> 'h imp \<Rightarrow> bool \<times> 'h imp" where
  "tighten_bounds_for_non_trivial_gcd H g j is_upper s =
     (case has_bound_of_type H (lra s) j is_upper of
        Some (b_dep, rs, is_strict) \<Rightarrow>
          (let rs' = (rs - imp_m_c s) / g in
           if \<not> is_int rs' then tighten_bound_kind H g j rs' is_upper b_dep s
           else (False, s))
      | None \<Rightarrow> (False, s))"

text \<open>
  \<open>tighten_bounds_for_term_column j\<close> returns true if a conflict was found. It has no
  value when the substitution loop does not end.
\<close>

definition tighten_bounds_for_term_column ::
  "'h host \<Rightarrow> nat \<Rightarrow> 'h imp \<Rightarrow> (bool \<times> 'h imp) option" where
  "tighten_bounds_for_term_column H j s =
     (let term_to_tighten = get_term H (lra s) j in
      if \<not> all_vars_are_int H s term_to_tighten then Some (False, s)
      else
        (let q = map (\<lambda>p. lar_solver_to_local s (fst p))
                   (filter (\<lambda>p. \<not> column_is_fixed H (lra s) (fst p)
                                 \<and> can_substitute s (lar_solver_to_local s (fst p)))
                      term_to_tighten)
         in if q = [] then Some (False, s)
            else
              (case subs_indexed_vector_with_S
                      (fill_indexed_work_vector_from_term H term_to_tighten s) q of
                 None \<Rightarrow> None
               | Some s1 \<Rightarrow>
                   (let g = gcd_of_coeffs (m_indexed_work_vector s1) in
                    if g = 1 then Some (False, s1)
                    else if g = 0 then
                      (let s2 = handle_constant_term H j s1
                       in Some (m_infeas_explanation s2 \<noteq> [], s2))
                    else
                      (let (r, s2) = tighten_bounds_for_non_trivial_gcd H g j True s1
                       in if r then Some (True, s2)
                          else Some (tighten_bounds_for_non_trivial_gcd H g j False s2))))))"

fun tighten_terms_loop :: "'h host \<Rightarrow> nat list \<Rightarrow> 'h imp \<Rightarrow> (lia_move \<times> 'h imp) option" where
  "tighten_terms_loop H [] s = Some (lia_undef, s)"
| "tighten_terms_loop H (j # js) s =
     (if \<not> column_has_term H (lra s) j \<or> column_is_free H (lra s) j
         \<or> is_fixed H s j \<or> \<not> column_is_int H (lra s) j
      then tighten_terms_loop H js s
      else (case tighten_bounds_for_term_column H j s of
              None \<Rightarrow> None
            | Some (r, s') \<Rightarrow>
                if r then Some (lia_conflict, s') else tighten_terms_loop H js s'))"

definition tighten_terms_with_S :: "'h host \<Rightarrow> 'h imp \<Rightarrow> (lia_move \<times> 'h imp) option" where
  "tighten_terms_with_S H s = tighten_terms_loop H [0 ..< column_count H (lra s)] s"

definition process_f_and_tighten_terms ::
  "'h host \<Rightarrow> 'h imp \<Rightarrow> (lia_move \<times> 'h imp) option" where
  "process_f_and_tighten_terms H s =
     (case process_f H s of
        None \<Rightarrow> None
      | Some (ret, s1) \<Rightarrow>
          if ret \<noteq> lia_undef then Some (ret, s1)
          else (case tighten_terms_with_S H s1 of
                  None \<Rightarrow> None
                | Some (ret', s2) \<Rightarrow>
                    if ret' = lia_conflict
                    then Some (lia_conflict,
                           s2\<lparr>stats := (stats s2)\<lparr>m_dio_tighten_conflicts :=
                                 m_dio_tighten_conflicts (stats s2) + 1\<rparr>\<rparr>)
                    else Some (lia_undef, s2)))"

section \<open>The brancher\<close>

text \<open>
  The score of a variable is the smaller of the averages of the numbers of
  integer-infeasible columns seen after its left and after its right branches, infinity
  when there is none. The source computes it in \<open>double\<close>; here an average is the exact
  rational and \<open>None\<close> is infinity.
\<close>

type_synonym score = "mpq option"

definition average :: "nat list \<Rightarrow> score" where
  "average xs = (if xs = [] then None else Some (of_nat (sum_list xs) / of_nat (length xs)))"

definition score_less :: "score \<Rightarrow> score \<Rightarrow> bool" where
  "score_less a b =
     (case a of None \<Rightarrow> False
      | Some x \<Rightarrow> (case b of None \<Rightarrow> True | Some y \<Rightarrow> x < y))"

definition score :: "variable_branch_stats \<Rightarrow> score" where
  "score st =
     (let avm_lefts = average (m_ii_after_left st); avm_rights = average (m_ii_after_right st)
      in if score_less avm_rights avm_lefts then avm_rights else avm_lefts)"

definition empty_branch_stats :: variable_branch_stats where
  "empty_branch_stats = \<lparr>m_ii_after_left = [], m_ii_after_right = []\<rparr>"

definition get_branch_score :: "nat \<Rightarrow> 'h imp \<Rightarrow> score \<times> 'h imp" where
  "get_branch_score j s =
     (let s1 = (if j \<ge> length (m_branch_stats s)
                then s\<lparr>m_branch_stats := resize (j + 1) empty_branch_stats (m_branch_stats s)\<rparr>
                else s)
      in (score (m_branch_stats s1 ! j), s1))"

definition update_branch_stats :: "branch \<Rightarrow> nat \<Rightarrow> 'h imp \<Rightarrow> 'h imp" where
  "update_branch_stats b n_of_ii s =
     (let sts = (if m_j b \<ge> length (m_branch_stats s)
                 then resize (m_j b + 1) empty_branch_stats (m_branch_stats s)
                 else m_branch_stats s);
          st = sts ! m_j b
      in s\<lparr>m_branch_stats := sts[m_j b :=
              (if m_left b then st\<lparr>m_ii_after_left := m_ii_after_left st @ [n_of_ii]\<rparr>
               else st\<lparr>m_ii_after_right := m_ii_after_right st @ [n_of_ii]\<rparr>)]\<rparr>)"

text \<open>
  The loop of \<open>create_branch\<close> over the basis: the accumulator is \<open>(bj, score, n)\<close>.
  \<open>random_next\<close> is called only when the scores are equal.
\<close>

fun create_branch_loop ::
  "'h host \<Rightarrow> nat list \<Rightarrow> nat \<times> score \<times> nat \<Rightarrow> 'h imp \<Rightarrow> (nat \<times> score \<times> nat) \<times> 'h imp" where
  "create_branch_loop H [] acc s = (acc, s)"
| "create_branch_loop H (j # js) acc s =
     (if \<not> column_is_int_inf H (lra s) j then create_branch_loop H js acc s
      else
        (let sc_s = get_branch_score j s; sc = fst sc_s; s1 = snd sc_s in
         if score_less sc (fst (snd acc)) then create_branch_loop H js (j, sc, snd (snd acc)) s1
         else if sc = fst (snd acc) then
           (let rh = random_next H (lra s1); n' = snd (snd acc) + 1; s2 = s1\<lparr>lra := snd rh\<rparr>
            in if fst rh mod n' = 0 then create_branch_loop H js (j, sc, n') s2
               else create_branch_loop H js (fst acc, fst (snd acc), n') s2)
         else create_branch_loop H js acc s1))"

text \<open>
  \<open>create_branch\<close>: a branch with \<open>m_j = UINT_MAX\<close> says that no branch could be
  created (its \<open>m_left\<close> is not initialized in the source; it is \<open>False\<close> here).
\<close>

definition create_branch :: "'h host \<Rightarrow> 'h imp \<Rightarrow> branch \<times> 'h imp" where
  "create_branch H s =
     (let r = create_branch_loop H (r_basis H (lra s)) (UINT_MAX, None, 0) s;
          bj = fst (fst r); s1 = snd r
      in if bj = UINT_MAX
         then (\<lparr>m_j = UINT_MAX, m_rs = 0, m_left = False, m_fully_explored = False\<rparr>, s1)
         else
           (let rh = random_next H (lra s1)
            in (\<lparr>m_j = bj,
                 m_rs = of_int \<lfloor>get_column_value H (snd rh) bj\<rfloor>,
                 m_left = (fst rh mod 2 = 0),
                 m_fully_explored = False\<rparr>,
                s1\<lparr>lra := snd rh\<rparr>)))"

definition push_branch :: "'h host \<Rightarrow> 'h imp \<Rightarrow> bool \<times> 'h imp" where
  "push_branch H s =
     (let brs = create_branch H s; br = fst brs; s1 = snd brs in
      if m_j br = UINT_MAX then (False, s1)
      else (True,
            s1\<lparr>m_branch_stack := m_branch_stack s1 @ [br],
               stats := (stats s1)\<lparr>m_dio_branching_depth :=
                  max (m_dio_branching_depth (stats s1)) (length (m_branch_stack s1) + 1)\<rparr>\<rparr>))"

text \<open>
  \<open>check_fixing\<close>: the gcd of the row that substitutes \<open>j\<close>, without \<open>j\<close>, must divide
  the constant once \<open>j\<close> has its fixed value. The loop returns \<open>undef\<close> at once when the
  gcd is one.
\<close>

fun check_fixing_loop ::
  "'h host \<Rightarrow> 'h imp \<Rightarrow> nat \<Rightarrow> row_strip \<Rightarrow> mpq \<times> mpq \<Rightarrow> lia_move + (mpq \<times> mpq)" where
  "check_fixing_loop H s j [] gc = Inr gc"
| "check_fixing_loop H s j ((v, a) # ps) gc =
     (if v = j
      then check_fixing_loop H s j ps
             (fst gc, snd gc + a * get_lower_bound H (lra s) (local_to_lar_solver s j))
      else
        (let g' = (if fst gc = 0 then \<bar>a\<bar> else gcd_mpq (fst gc) a) in
         if g' = 1 then Inl lia_undef else check_fixing_loop H s j ps (g', snd gc)))"

definition check_fixing :: "'h host \<Rightarrow> 'h imp \<Rightarrow> nat \<Rightarrow> lia_move" where
  "check_fixing H s j =
     (let ei = m_k2s s ! j in
      case check_fixing_loop H s j (e_row s ei) (0, m_c (m_entries s ! ei)) of
        Inl r \<Rightarrow> r
      | Inr gc \<Rightarrow> if \<not> is_int (snd gc / fst gc) then lia_conflict else lia_undef)"

definition fix_var :: "'h host \<Rightarrow> nat \<Rightarrow> 'h imp \<Rightarrow> lia_move \<times> 'h imp" where
  "fix_var H j s =
     (if can_substitute s j \<and> check_fixing H s j = lia_conflict
      then (lia_conflict,
            s\<lparr>m_explanation_of_branches := m_explanation_of_branches s @
                 flatten (explain_fixed_in_meta_term H s (l_row s (m_k2s s ! j)))\<rparr>)
      else (lia_undef, s))"

text \<open>
  \<open>add_var_bound_for_branch\<close>: the left side of a branch asserts \<open>x[j] \<le> m_rs\<close>, the
  right side asserts \<open>x[j] \<ge> m_rs + 1\<close>.
\<close>

definition add_var_bound_for_branch :: "'h host \<Rightarrow> branch \<Rightarrow> 'h imp \<Rightarrow> lia_move \<times> 'h imp" where
  "add_var_bound_for_branch H b s =
     (let h1 = (if m_left b then add_var_bound H (m_j b) LE (m_rs b) (lra s)
                else add_var_bound H (m_j b) GE (m_rs b + 1) (lra s));
          s1 = s\<lparr>lra := h1\<rparr>
      in if column_is_fixed H h1 (m_j b) then
           (if \<not> external_is_used (m_var_register s1) (m_j b) then (lia_undef, s1)
            else (let r = fix_var H (external_to_local (m_var_register s1) (m_j b)) s1
                  in if fst r = lia_conflict then (lia_conflict, snd r) else (lia_undef, snd r)))
         else (lia_undef, s1))"

definition lra_push :: "'h host \<Rightarrow> 'h imp \<Rightarrow> 'h imp" where
  "lra_push H s = s\<lparr>m_lra_level := m_lra_level s + 1, lra := push H (lra s)\<rparr>"

definition lra_pop :: "'h host \<Rightarrow> 'h imp \<Rightarrow> 'h imp" where
  "lra_pop H s =
     s\<lparr>m_lra_level := m_lra_level s - 1,
       lra := snd (find_feasible_solution H (pop H (lra s)))\<rparr>"

text \<open>
  \<open>undo_branching\<close>: \<open>while (m_lra_level --) lra.pop()\<close> pops as many times as the
  level says and leaves the unsigned level at \<open>-1\<close>.
\<close>

definition undo_branching :: "'h host \<Rightarrow> 'h imp \<Rightarrow> 'h imp" where
  "undo_branching H s =
     s\<lparr>m_lra_level := - 1,
       lra := snd (find_feasible_solution H ((pop H ^^ unat (m_lra_level s)) (lra s)))\<rparr>"

fun undo_explored_branches_loop :: "'h host \<Rightarrow> nat \<Rightarrow> 'h imp \<Rightarrow> 'h imp" where
  "undo_explored_branches_loop H 0 s = s"
| "undo_explored_branches_loop H (Suc n) s =
     (if m_branch_stack s \<noteq> [] \<and> m_fully_explored (last (m_branch_stack s))
      then undo_explored_branches_loop H n
             (lra_pop H (s\<lparr>m_branch_stack := butlast (m_branch_stack s)\<rparr>))
      else s)"

definition undo_explored_branches :: "'h host \<Rightarrow> 'h imp \<Rightarrow> 'h imp" where
  "undo_explored_branches H s = undo_explored_branches_loop H (length (m_branch_stack s)) s"

definition collect_evidence :: "'h host \<Rightarrow> 'h imp \<Rightarrow> 'h imp" where
  "collect_evidence H s =
     (let ex = get_infeasibility_explanation H (lra s)
      in s\<lparr>m_infeas_explanation := ex,
           m_explanation_of_branches := m_explanation_of_branches s @ ex\<rparr>)"

definition transfer_explanations_from_closed_branches :: "'h host \<Rightarrow> 'h imp \<Rightarrow> 'h imp" where
  "transfer_explanations_from_closed_branches H s =
     s\<lparr>m_infeas_explanation := filter (valid_index H (lra s)) (m_explanation_of_branches s)\<rparr>"

definition get_number_of_int_inf :: "'h host \<Rightarrow> 'h imp \<Rightarrow> nat" where
  "get_number_of_int_inf H s =
     length (filter (column_is_int_inf H (lra s)) (r_basis H (lra s)))"

definition flip :: "branch \<Rightarrow> branch" where
  "flip b = b\<lparr>m_left := \<not> m_left b, m_fully_explored := True\<rparr>"

definition flip_back :: "'h imp \<Rightarrow> 'h imp" where
  "flip_back s =
     s\<lparr>m_branch_stack := butlast (m_branch_stack s) @ [flip (last (m_branch_stack s))]\<rparr>"

definition count_sat :: "'h imp \<Rightarrow> 'h imp" where
  "count_sat s = s\<lparr>stats := (stats s)\<lparr>m_dio_branching_sats := m_dio_branching_sats (stats s) + 1\<rparr>\<rparr>"

definition count_infeasible :: "'h imp \<Rightarrow> 'h imp" where
  "count_infeasible s =
     s\<lparr>stats := (stats s)\<lparr>m_dio_branching_infeasibles :=
          m_dio_branching_infeasibles (stats s) + 1\<rparr>\<rparr>"

text \<open>
  The body of the loop of \<open>branching_on_undef\<close>, after the counter has been advanced and
  tested: \<open>Inl\<close> is a \<open>return\<close> of the function, \<open>Inr\<close> goes to the next round with the
  new value of \<open>need_create_branch\<close>.
\<close>

definition branching_body ::
  "'h host \<Rightarrow> bool \<Rightarrow> 'h imp \<Rightarrow> (lia_move \<times> 'h imp) + (bool \<times> 'h imp)" where
  "branching_body H need_create_branch s0 =
     (let s1 = s0\<lparr>stats := (stats s0)\<lparr>m_dio_branch_iterations :=
                   m_dio_branch_iterations (stats s0) + 1\<rparr>\<rparr>;
          pb = (if need_create_branch then push_branch H s1 else (True, s1))
      in if \<not> fst pb then Inl (lia_sat, count_sat (undo_branching H (snd pb)))
         else
           (let s3 = lra_push H (snd pb);
                ab = add_var_bound_for_branch H (last (m_branch_stack s3)) s3
            in if fst ab = lia_conflict then
                 (let s5 = undo_explored_branches H (snd ab) in
                  if m_branch_stack s5 = []
                  then Inl (lia_conflict,
                            transfer_explanations_from_closed_branches H (count_infeasible s5))
                  else Inr (False, lra_pop H (flip_back s5)))
               else
                 (let fs = find_feasible_solution H (lra (snd ab));
                      st = fst fs; s5 = (snd ab)\<lparr>lra := snd fs\<rparr>
                  in if st \<ge> FEASIBLE H then
                       (let n_of_ii = get_number_of_int_inf H s5 in
                        if n_of_ii = 0 then Inl (lia_sat, count_sat (undo_branching H s5))
                        else Inr (True, update_branch_stats (last (m_branch_stack s5)) n_of_ii s5))
                     else if st = CANCELLED H then Inl (lia_undef, s5)
                     else
                       (let s7 = undo_explored_branches H (collect_evidence H s5) in
                        if m_branch_stack s7 = []
                        then Inl (lia_conflict,
                                  transfer_explanations_from_closed_branches H (count_infeasible s7))
                        else Inr (False, flip_back (lra_pop H s7))))))"

section \<open>The loop of \<open>branching_on_undef\<close>\<close>

text \<open>
  The loop \<open>while (++m_number_of_iterations < m_max_number_of_iterations)\<close> ends because
  its body changes neither field. \<open>budget\<close> is the triple of the two fields and of
  the counter of rounds \<open>m_dio_branch_iterations\<close>; the lemmas below say which operations
  leave it alone, which is what the termination proof of the loop needs.
\<close>

definition budget :: "'h imp \<Rightarrow> nat \<times> nat \<times> nat" where
  "budget s = (m_number_of_iterations s, m_max_number_of_iterations s,
               m_dio_branch_iterations (stats s))"

lemma budget_update [simp]:
  "budget (m_var_register_update f1 s) = budget s"
  "budget (m_entries_update f2 s) = budget s"
  "budget (m_e_matrix_update f3 s) = budget s"
  "budget (m_l_matrix_update f4 s) = budget s"
  "budget (lia_term_update f5 s) = budget s"
  "budget (lia_offset_update f6 s) = budget s"
  "budget (lia_is_upper_update f7 s) = budget s"
  "budget (lra_update f8 s) = budget s"
  "budget (m_infeas_explanation_update f10 s) = budget s"
  "budget (m_indexed_work_vector_update f11 s) = budget s"
  "budget (m_report_branch_update f12 s) = budget s"
  "budget (m_f_update f13 s) = budget s"
  "budget (m_s_update f14 s) = budget s"
  "budget (imp_m_c_update f15 s) = budget s"
  "budget (m_tmp_l_update f16 s) = budget s"
  "budget (m_k2s_update f17 s) = budget s"
  "budget (m_fresh_definitions_update f18 s) = budget s"
  "budget (m_conflict_index_update f19 s) = budget s"
  "budget (m_changed_columns_update f20 s) = budget s"
  "budget (m_columns_to_terms_update f21 s) = budget s"
  "budget (m_added_terms_update f22 s) = budget s"
  "budget (m_active_terms_update f23 s) = budget s"
  "budget (m_branch_stats_update f24 s) = budget s"
  "budget (m_branch_stack_update f25 s) = budget s"
  "budget (m_explanation_of_branches_update f26 s) = budget s"
  "budget (m_lra_level_update f27 s) = budget s"
  by (simp_all add: budget_def)

lemma budget_stats_update [simp]:
  "m_dio_branch_iterations (f (stats s)) = m_dio_branch_iterations (stats s) \<Longrightarrow>
   budget (stats_update f s) = budget s"
  by (simp add: budget_def)

lemma budget_get_branch_score: "budget (snd (get_branch_score j s)) = budget s"
  by (simp add: get_branch_score_def Let_def)

lemma budget_create_branch_loop:
  "budget (snd (create_branch_loop H js acc s)) = budget s"
proof (induction js arbitrary: acc s)
  case Nil
  then show ?case by simp
next
  case (Cons j js)
  show ?case
    by (simp add: Let_def Cons.IH budget_get_branch_score)
qed

lemma budget_create_branch: "budget (snd (create_branch H s)) = budget s"
  using budget_create_branch_loop[of H "r_basis H (lra s)" "(UINT_MAX, None, 0)" s]
  by (simp add: create_branch_def Let_def)

lemma budget_push_branch: "budget (snd (push_branch H s)) = budget s"
  using budget_create_branch[of H s] by (simp add: push_branch_def Let_def)

lemma budget_lra_push: "budget (lra_push H s) = budget s"
  by (simp add: lra_push_def)

lemma budget_lra_pop: "budget (lra_pop H s) = budget s"
  by (simp add: lra_pop_def)

lemma budget_undo_branching: "budget (undo_branching H s) = budget s"
  by (simp add: undo_branching_def)

lemma budget_fix_var: "budget (snd (fix_var H j s)) = budget s"
  by (simp add: fix_var_def)

lemma budget_add_var_bound_for_branch:
  "budget (snd (add_var_bound_for_branch H b s)) = budget s"
  by (simp add: add_var_bound_for_branch_def Let_def budget_fix_var)

lemma budget_undo_explored_branches_loop:
  "budget (undo_explored_branches_loop H n s) = budget s"
  by (induction n arbitrary: s) (simp_all add: budget_lra_pop)

lemma budget_undo_explored_branches: "budget (undo_explored_branches H s) = budget s"
  by (simp add: undo_explored_branches_def budget_undo_explored_branches_loop)

lemma budget_misc:
  "budget (collect_evidence H s) = budget s"
  "budget (transfer_explanations_from_closed_branches H s) = budget s"
  "budget (flip_back s) = budget s"
  "budget (count_sat s) = budget s"
  "budget (count_infeasible s) = budget s"
  "budget (update_branch_stats b n s) = budget s"
  by (simp_all add: collect_evidence_def transfer_explanations_from_closed_branches_def
      flip_back_def count_sat_def count_infeasible_def update_branch_stats_def Let_def)

lemmas budget_simps = budget_push_branch budget_lra_push budget_lra_pop budget_undo_branching
  budget_add_var_bound_for_branch budget_undo_explored_branches budget_misc

lemma budget_branching_body:
  "branching_body H need s = Inr (need', s') \<Longrightarrow>
   budget s' = budget (s\<lparr>stats := (stats s)\<lparr>m_dio_branch_iterations :=
                   m_dio_branch_iterations (stats s) + 1\<rparr>\<rparr>)"
  unfolding branching_body_def Let_def
  by (auto split: if_splits simp: budget_simps)

lemma budget_branching_body_Inl:
  "branching_body H need s = Inl (r, s') \<Longrightarrow>
   budget s' = budget (s\<lparr>stats := (stats s)\<lparr>m_dio_branch_iterations :=
                   m_dio_branch_iterations (stats s) + 1\<rparr>\<rparr>)"
  unfolding branching_body_def Let_def
  by (auto split: if_splits simp: budget_simps)

function branching_on_undef_loop :: "'h host \<Rightarrow> bool \<Rightarrow> 'h imp \<Rightarrow> lia_move \<times> 'h imp" where
  "branching_on_undef_loop H need_create_branch s =
     (let s1 = s\<lparr>m_number_of_iterations := m_number_of_iterations s + 1\<rparr> in
      if m_number_of_iterations s1 < m_max_number_of_iterations s1 then
        (case branching_body H need_create_branch s1 of
           Inl r \<Rightarrow> r
         | Inr ns \<Rightarrow> branching_on_undef_loop H (fst ns) (snd ns))
      else (lia_undef, undo_branching H s1))"
  by pat_completeness auto
termination
proof (relation "measure (\<lambda>(H, n, s). m_max_number_of_iterations s - m_number_of_iterations s)",
       goal_cases)
  case 1
  show ?case by simp
next
  case (2 H need s s1 ns)
  have "branching_body H need s1 = Inr (fst ns, snd ns)" using 2(3) by simp
  from budget_branching_body[OF this]
  have "budget (snd ns) = budget (s1\<lparr>stats := (stats s1)\<lparr>m_dio_branch_iterations :=
                   m_dio_branch_iterations (stats s1) + 1\<rparr>\<rparr>)" .
  then show ?case using 2(1,2) by (cases ns) (simp add: budget_def)
qed

definition branching_on_undef :: "'h host \<Rightarrow> 'h imp \<Rightarrow> lia_move \<times> 'h imp" where
  "branching_on_undef H s =
     branching_on_undef_loop H True
       (s\<lparr>m_explanation_of_branches := [], m_number_of_iterations := 0\<rparr>)"

section \<open>Change tracking, \<open>init\<close> and \<open>check\<close>\<close>

text \<open>
  Sets (\<open>std::unordered_set\<close>) are lists without repetition, in insertion order.
\<close>

definition set_insert :: "'a \<Rightarrow> 'a list \<Rightarrow> 'a list" where
  "set_insert x xs = (if x \<in> set xs then xs else xs @ [x])"

definition set_inserts :: "'a list \<Rightarrow> 'a list \<Rightarrow> 'a list" where
  "set_inserts ys xs = foldl (\<lambda>acc y. set_insert y acc) xs ys"

text \<open>The callbacks that the host calls between two checks.\<close>

definition add_term_callback :: "'h host \<Rightarrow> nat \<Rightarrow> 'h imp \<Rightarrow> 'h imp" where
  "add_term_callback H j s =
     (if \<not> column_is_int H (lra s) j then s
      else if \<not> all_vars_are_int H s (get_term H (lra s) j) then s
      else s\<lparr>m_added_terms := m_added_terms s @ [j]\<rparr>)"

text \<open>
  \<open>update_column_bound_callback\<close> also pushes an undo object on the trail of the host;
  the trail belongs to the host and is not part of this state.
\<close>

definition update_column_bound_callback :: "'h host \<Rightarrow> nat \<Rightarrow> 'h imp \<Rightarrow> 'h imp" where
  "update_column_bound_callback H j s =
     (if \<not> column_is_int H (lra s) j \<or> \<not> column_is_fixed H (lra s) j then s
      else s\<lparr>m_changed_columns := set_insert j (m_changed_columns s)\<rparr>)"

subsection \<open>Rows and entries\<close>

text \<open>
  Modelled from the spec: \<open>transpose_rows\<close> and the removal of the last row of a
  \<open>static_matrix\<close> (section 4.2), and \<open>shrink\<close> of the variable register (section 4.1).
\<close>

definition transpose_rows :: "nat \<Rightarrow> nat \<Rightarrow> static_matrix \<Rightarrow> static_matrix" where
  "transpose_rows i k m = m\<lparr>m_rows := (m_rows m)[i := m_rows m ! k, k := m_rows m ! i]\<rparr>"

definition remove_last_row_in_matrix :: "static_matrix \<Rightarrow> static_matrix" where
  "remove_last_row_in_matrix m = m\<lparr>m_rows := butlast (m_rows m)\<rparr>"

definition last_column_is_empty :: "static_matrix \<Rightarrow> bool" where
  "last_column_is_empty m = (n_columns m > 0 \<and> column_rows m (n_columns m - 1) = [])"

definition pop_column :: "static_matrix \<Rightarrow> static_matrix" where
  "pop_column m = m\<lparr>n_columns := n_columns m - 1\<rparr>"

definition remove_entry_from_lists :: "nat \<Rightarrow> 'h imp \<Rightarrow> 'h imp" where
  "remove_entry_from_lists ei s =
     (if m_entry_status (m_entries s ! ei) = F then s\<lparr>m_f := removeAll ei (m_f s)\<rparr>
      else s\<lparr>m_s := removeAll ei (m_s s)\<rparr>)"

definition add_entry_to_lists :: "nat \<Rightarrow> 'h imp \<Rightarrow> 'h imp" where
  "add_entry_to_lists ei s =
     (if m_entry_status (m_entries s ! ei) = F then s\<lparr>m_f := m_f s @ [ei]\<rparr>
      else s\<lparr>m_s := m_s s @ [ei]\<rparr>)"

definition swap_index :: "nat \<Rightarrow> nat \<Rightarrow> nat \<Rightarrow> nat" where
  "swap_index i k t = (if t = i then k else if t = k then i else t)"

definition transpose_entries :: "nat \<Rightarrow> nat \<Rightarrow> 'h imp \<Rightarrow> 'h imp" where
  "transpose_entries i k s =
     (let s1 = s\<lparr>m_l_matrix := transpose_rows i k (m_l_matrix s),
                 m_e_matrix := transpose_rows i k (m_e_matrix s)\<rparr>;
          s2 = remove_entry_from_lists k (remove_entry_from_lists i s1);
          s3 = s2\<lparr>m_entries := (m_entries s2)[i := m_entries s2 ! k, k := m_entries s2 ! i]\<rparr>;
          s4 = add_entry_to_lists k (add_entry_to_lists i s3)
      in s4\<lparr>m_fresh_definitions :=
               map (\<lambda>fd. (swap_index i k (fst fd), snd fd)) (m_fresh_definitions s4),
            m_k2s := map (swap_index i k) (m_k2s s4)\<rparr>)"

text \<open>\<open>remove_entry_index\<close> erases the first occurrence of an index in a list.\<close>

definition remove_last_entry :: "'h imp \<Rightarrow> 'h imp" where
  "remove_last_entry s =
     (let ei = length (m_entries s) - 1;
          s1 = (if m_entry_status (last (m_entries s)) = F then s\<lparr>m_f := remove1 ei (m_f s)\<rparr>
                else s\<lparr>m_s := remove1 ei (m_s s)\<rparr>)
      in s1\<lparr>m_entries := butlast (m_entries s1)\<rparr>)"

definition move_entry_from_s_to_f :: "nat \<Rightarrow> 'h imp \<Rightarrow> 'h imp" where
  "move_entry_from_s_to_f ei s =
     (if m_entry_status (m_entries s ! ei) = F then s
      else s\<lparr>m_entries := (m_entries s)[ei := (m_entries s ! ei)\<lparr>m_entry_status := F\<rparr>],
             m_k2s := map (\<lambda>t. if t = ei then UINT_MAX else t) (m_k2s s),
             m_s := removeAll ei (m_s s),
             m_f := m_f s @ [ei]\<rparr>)"

subsection \<open>Recalculating a row from its L-row\<close>

text \<open>
  \<open>open_l_term_to_work_vector\<close>: the work vector is indexed by the columns of the host
  here. The loops run over the cells of the L-row and, for each, over the extended
  coefficients of the term; the accumulator is the work vector and the constant.
\<close>

fun open_l_term_inner ::
  "'h host \<Rightarrow> 'h imp \<Rightarrow> mpq \<Rightarrow> row_strip \<Rightarrow> row_strip \<times> mpq \<Rightarrow> row_strip \<times> mpq" where
  "open_l_term_inner H s pc [] wc = wc"
| "open_l_term_inner H s pc ((v, qc) # qs) wc =
     open_l_term_inner H s pc qs
       (if is_fixed H s v
        then (fst wc, snd wc + pc * qc * get_lower_bound H (lra s) v)
        else (add_monomial (pc * qc) v (fst wc), snd wc))"

fun open_l_term_outer ::
  "'h host \<Rightarrow> 'h imp \<Rightarrow> row_strip \<Rightarrow> row_strip \<times> mpq \<Rightarrow> row_strip \<times> mpq" where
  "open_l_term_outer H s [] wc = wc"
| "open_l_term_outer H s ((j, pc) # ps) wc =
     open_l_term_outer H s ps (open_l_term_inner H s pc (ext_coeffs H (lra s) j) wc)"

definition open_l_term_to_work_vector :: "'h host \<Rightarrow> nat \<Rightarrow> mpq \<Rightarrow> 'h imp \<Rightarrow> row_strip \<times> mpq" where
  "open_l_term_to_work_vector H ei c s = open_l_term_outer H s (l_row s ei) ([], c)"

definition denominator :: "mpq \<Rightarrow> mpq" where
  "denominator q = of_int (snd (quotient_of q))"

definition lcm_mpq :: "mpq \<Rightarrow> mpq \<Rightarrow> mpq" where
  "lcm_mpq a b = of_int (lcm \<lfloor>a\<rfloor> \<lfloor>b\<rfloor>)"

text \<open>
  The loop of \<open>recalculate_entry\<close> over the work vector: every variable gets a local id,
  its coefficient enters E-row \<open>ei\<close>, and \<open>denom\<close> collects the denominators.
\<close>

fun recalculate_entry_loop :: "nat \<Rightarrow> row_strip \<Rightarrow> mpq \<times> 'h imp \<Rightarrow> mpq \<times> 'h imp" where
  "recalculate_entry_loop ei [] ds = ds"
| "recalculate_entry_loop ei ((v, a) # ps) ds =
     (let s = snd ds;
          ljr = add_var v (m_var_register s);
          lj = fst ljr;
          e1 = add_new_element ei lj a (add_columns_up_to lj (m_e_matrix s));
          denom = (if denominator a \<noteq> 1 then lcm_mpq (fst ds) (denominator a) else fst ds)
      in recalculate_entry_loop ei ps
           (denom, s\<lparr>m_var_register := snd ljr, m_e_matrix := e1\<rparr>))"

definition recalculate_entry :: "'h host \<Rightarrow> nat \<Rightarrow> 'h imp \<Rightarrow> 'h imp" where
  "recalculate_entry H ei s =
     (let wc = open_l_term_to_work_vector H ei 0 s;
          s1 = s\<lparr>m_indexed_work_vector := fst wc,
                 m_entries := (m_entries s)[ei := (m_entries s ! ei)\<lparr>m_c := snd wc\<rparr>],
                 m_e_matrix := (m_e_matrix s)\<lparr>m_rows := (m_rows (m_e_matrix s))[ei := []]\<rparr>\<rparr>;
          ds = recalculate_entry_loop ei (fst wc) (1, s1);
          denom = fst ds; s2 = snd ds
      in if denom \<noteq> 1
         then s2\<lparr>m_entries := (m_entries s2)[ei := (m_entries s2 ! ei)
                     \<lparr>m_c := m_c (m_entries s2 ! ei) * denom\<rparr>],
                 m_l_matrix := multiply_row ei denom (m_l_matrix s2),
                 m_e_matrix := multiply_row ei denom (m_e_matrix s2)\<rparr>
         else s2)"

subsection \<open>\<open>process_changed_columns\<close>\<close>

definition columns_to_terms_find :: "'h imp \<Rightarrow> nat \<Rightarrow> nat list" where
  "columns_to_terms_find s j = assoc (m_columns_to_terms s) j []"

text \<open>
  The rows to recalculate: those that hold a changed column in the E-matrix, and those
  whose L-row holds a term that depends on a changed column.
\<close>

definition changed_terms_of :: "'h imp \<Rightarrow> nat list" where
  "changed_terms_of s =
     foldl (\<lambda>acc j. set_inserts (columns_to_terms_find s j) acc) [] (m_changed_columns s)"

definition entries_to_recalculate_of :: "'h imp \<Rightarrow> nat list" where
  "entries_to_recalculate_of s =
     (let from_e = foldl (\<lambda>acc j.
              if \<not> external_is_used (m_var_register s) j then acc
              else set_inserts (column_rows (m_e_matrix s) (lar_solver_to_local s j)) acc)
            [] (m_changed_columns s)
      in foldl (\<lambda>acc j. set_inserts (column_rows (m_l_matrix s) j) acc)
           from_e (changed_terms_of s))"

definition fresh_entries_to_remove_of :: "'h imp \<Rightarrow> nat list \<Rightarrow> nat list" where
  "fresh_entries_to_remove_of s etr =
     filter (\<lambda>j. fst (m_fresh_definitions s ! j) \<noteq> UINT_MAX
                  \<and> snd (m_fresh_definitions s ! j) \<in> set etr)
       [0 ..< length (m_fresh_definitions s)]"

text \<open>
  One round of the loop that removes the definition of the fresh variable \<open>xt\<close>. The
  definition row is moved to the last place and removed. \<open>fd\<close> is a reference to
  \<open>m_fresh_definitions[xt]\<close> in the source, so after \<open>transpose_entries\<close> the index
  \<open>fd.m_ei\<close> that is inserted into the set is read from the updated vector.
\<close>

definition remove_fresh_entry :: "nat \<Rightarrow> 'h imp \<times> nat list \<Rightarrow> 'h imp \<times> nat list" where
  "remove_fresh_entry xt se =
     (let s = fst se; etr = snd se;
          last_ei = length (m_entries s) - 1;
          s1 = (if fst (m_fresh_definitions s ! xt) \<noteq> last_ei
                then transpose_entries (fst (m_fresh_definitions s ! xt)) last_ei s else s);
          etr1 = (if fst (m_fresh_definitions s ! xt) \<noteq> last_ei \<and> last_ei \<in> set etr
                  then set_insert (fst (m_fresh_definitions s1 ! xt)) (removeAll last_ei etr)
                  else etr);
          etr2 = set_inserts (column_rows (m_e_matrix s1) xt) etr1;
          s2 = s1\<lparr>m_fresh_definitions := (m_fresh_definitions s1)[xt := (UINT_MAX, UINT_MAX)]\<rparr>;
          s3 = remove_last_entry s2
      in (s3\<lparr>m_l_matrix := remove_last_row_in_matrix (m_l_matrix s3),
             m_e_matrix := remove_last_row_in_matrix (m_e_matrix s3)\<rparr>,
          etr2))"

definition recalculate_one :: "'h host \<Rightarrow> 'h imp \<Rightarrow> nat \<Rightarrow> 'h imp" where
  "recalculate_one H s k =
     (if k \<ge> length (m_entries s) then s
      else
        (let s1 = move_entry_from_s_to_f k (recalculate_entry H k s);
             s2 = (if last_column_is_empty (m_e_matrix s1)
                   then s1\<lparr>m_e_matrix := pop_column (m_e_matrix s1),
                           m_var_register := take (n_columns (m_e_matrix s1) - 1) (m_var_register s1)\<rparr>
                   else s1)
         in if last_column_is_empty (m_l_matrix s2)
            then s2\<lparr>m_l_matrix := pop_column (m_l_matrix s2)\<rparr> else s2))"

text \<open>
  \<open>process_changed_columns\<close> has no value when a changed column is beyond the columns
  of the host: \<open>delete_column\<close> is \<open>NOT_IMPLEMENTED_YET\<close>.
\<close>

definition process_changed_columns :: "'h host \<Rightarrow> 'h imp \<Rightarrow> 'h imp option" where
  "process_changed_columns H s =
     (if list_ex (\<lambda>j. j \<ge> column_count H (lra s)) (m_changed_columns s) then None
      else
        (let etr = entries_to_recalculate_of s;
             se = foldr remove_fresh_entry (fresh_entries_to_remove_of s etr) (s, etr);
             s1 = foldl (recalculate_one H) (fst se) (snd se)
         in Some (s1\<lparr>m_changed_columns := []\<rparr>)))"

subsection \<open>Entering a term: \<open>fill_entry\<close>\<close>

fun fill_entry_loop :: "'h host \<Rightarrow> nat \<Rightarrow> row_strip \<Rightarrow> 'h imp \<Rightarrow> 'h imp" where
  "fill_entry_loop H entry_index [] s = s"
| "fill_entry_loop H entry_index ((v, a) # ps) s =
     fill_entry_loop H entry_index ps
       (if is_fixed H s v
        then s\<lparr>m_entries := (m_entries s)[entry_index := (m_entries s ! entry_index)
                   \<lparr>m_c := m_c (m_entries s ! entry_index) + a * get_lower_bound H (lra s) v\<rparr>]\<rparr>
        else (let ljr = add_var v (m_var_register s)
              in s\<lparr>m_var_register := snd ljr,
                   m_e_matrix := add_new_element entry_index (fst ljr) a
                                   (add_columns_up_to (fst ljr) (m_e_matrix s))\<rparr>))"

definition fill_entry :: "'h host \<Rightarrow> nat \<Rightarrow> 'h imp \<Rightarrow> 'h imp" where
  "fill_entry H j s =
     (let entry_index = length (m_entries s);
          s1 = s\<lparr>m_f := m_f s @ [entry_index],
                 m_entries := m_entries s @ [\<lparr>m_c = 0, m_entry_status = F\<rparr>],
                 m_l_matrix := add_new_element entry_index j 1
                                 (add_columns_up_to j (add_row (m_l_matrix s))),
                 m_e_matrix := add_row (m_e_matrix s)\<rparr>
      in fill_entry_loop H entry_index (ext_coeffs H (lra s) j) s1)"

fun register_columns_loop :: "nat \<Rightarrow> row_strip \<Rightarrow> (nat \<times> nat list) list \<Rightarrow> (nat \<times> nat list) list" where
  "register_columns_loop tj [] m = m"
| "register_columns_loop tj ((v, a) # ps) m =
     register_columns_loop tj ps
       (if map_of m v \<noteq> None
        then map (\<lambda>e. if fst e = v then (v, set_insert tj (snd e)) else e) m
        else m @ [(v, [tj])])"

definition register_columns_to_term :: "'h host \<Rightarrow> nat \<Rightarrow> 'h imp \<Rightarrow> 'h imp" where
  "register_columns_to_term H j s =
     s\<lparr>m_columns_to_terms :=
          register_columns_loop j (ext_coeffs H (lra s) j) (m_columns_to_terms s)\<rparr>"

subsection \<open>\<open>init\<close> and \<open>check\<close>\<close>

definition activate_term :: "'h host \<Rightarrow> 'h imp \<Rightarrow> nat \<Rightarrow> 'h imp" where
  "activate_term H s t =
     register_columns_to_term H t
       (fill_entry H t (s\<lparr>m_active_terms := set_insert t (m_active_terms s)\<rparr>))"

definition init :: "'h host \<Rightarrow> 'h imp \<Rightarrow> 'h imp option" where
  "init H s =
     (case process_changed_columns H
             (s\<lparr>m_report_branch := False, m_conflict_index := UINT_MAX,
                m_infeas_explanation := [], lia_term := [], m_number_of_iterations := 0,
                m_branch_stack := [], m_lra_level := 0\<rparr>) of
        None \<Rightarrow> None
      | Some s1 \<Rightarrow>
          Some ((foldl (activate_term H) s1 (m_added_terms s1))\<lparr>m_added_terms := []\<rparr>))"

text \<open>
  \<open>check\<close> has no value when \<open>init\<close> stops at \<open>delete_column\<close> or when one of the loops
  of the rewrite engine or of the tightener does not end.
\<close>

definition check :: "'h host \<Rightarrow> 'h imp \<Rightarrow> (lia_move \<times> 'h imp) option" where
  "check H s =
     (case init H (s\<lparr>stats := (stats s)\<lparr>m_dio_calls := m_dio_calls (stats s) + 1\<rparr>\<rparr>) of
        None \<Rightarrow> None
      | Some s1 \<Rightarrow>
          (case process_f_and_tighten_terms H s1 of
             None \<Rightarrow> None
           | Some (ret, s2) \<Rightarrow>
               if ret = lia_branch \<or> ret = lia_conflict then Some (ret, s2)
               else
                 (let rs = branching_on_undef H s2 in
                  if fst rs = lia_sat \<or> fst rs = lia_conflict then Some rs
                  else Some (lia_undef,
                             (snd rs)\<lparr>m_max_number_of_iterations :=
                                max 5 (m_max_number_of_iterations (snd rs) div 2)\<rparr>))))"

section \<open>Example states\<close>

text \<open>
  A host whose basis is column 0, integer-infeasible with value \<open>3/2\<close>; the second random
  number is odd, so the branch made is a right branch.
\<close>

definition branch_state :: "toy imp" where
  "branch_state =
     imp_init (toy_empty\<lparr>toy_values := [(0, 3 / 2)], toy_basis := [0], toy_int_inf := [0],
                          toy_randoms := [0, 1]\<rparr>)"

text \<open>
  A state of the tightener for the term column 2 with upper bound 9 and lower bound 1,
  after the substitution has left the work vector \<open>5 x0\<close> with constant \<open>m_c = 0\<close>
  (scenario 4 of the specification). The host answers \<open>st\<close> to the first
  \<open>find_feasible_solution\<close>.
\<close>

definition tighten_state :: "int \<Rightarrow> toy imp" where
  "tighten_state st =
     (imp_init (toy_empty\<lparr>toy_terms := [(2, [(0, 2), (1, 3)])],
                           toy_upper := [(2, 9)], toy_lower := [(2, 1)],
                           toy_statuses := [st]\<rparr>))
       \<lparr>m_indexed_work_vector := [(0, 5)], imp_m_c := 0\<rparr>"

text \<open>
  A solver whose bound on the iterations is 3, over a host whose basis is column 0,
  integer-infeasible with value \<open>3/2\<close> whatever bounds are added, and always feasible.
\<close>

definition budget_state :: "toy imp" where
  "budget_state =
     (imp_init (toy_empty\<lparr>toy_values := [(0, 3 / 2)], toy_basis := [0], toy_int_inf := [0]\<rparr>))
       \<lparr>m_max_number_of_iterations := 3\<rparr>"



section \<open>The rounds of \<open>process_f\<close>\<close>


section \<open>Properties of the pivot selection\<close>

lemma is_int_simps [simp]:
  "is_int 0" "is_int 1" "is_int (numeral n)" "is_int (- numeral n)" "is_int (- 1)"
  by (simp_all add: is_int_def)

lemma is_int_of_int [simp]: "is_int (of_int n)"
  by (simp add: is_int_def)

lemma is_intE: "is_int a \<Longrightarrow> (\<And>n. a = of_int n \<Longrightarrow> P) \<Longrightarrow> P"
  unfolding is_int_def by metis

lemma is_int_abs_ge1: "is_int a \<Longrightarrow> a \<noteq> 0 \<Longrightarrow> 1 \<le> \<bar>a\<bar>"
proof -
  assume a: "is_int a" "a \<noteq> 0"
  then obtain n :: int where n: "a = of_int n" unfolding is_int_def by metis
  with a have "n \<noteq> 0" by auto
  hence "1 \<le> \<bar>n\<bar>" by simp
  hence "(1::rat) \<le> of_int \<bar>n\<bar>" by (metis of_int_1 of_int_le_iff)
  thus ?thesis using n by simp
qed

lemma find_minimal_abs_coeff_loop_spec:
  "list_all (\<lambda>p. 1 \<le> \<bar>snd p\<bar>) ps \<Longrightarrow>
   find_minimal_abs_coeff_loop acc ps = Some (ahk, k, ks) \<Longrightarrow>
   (acc = Some (ahk, k, ks) \<or> (k, of_int ks * ahk) \<in> set ps) \<and>
   (\<forall>p \<in> set ps. ahk \<le> \<bar>snd p\<bar>) \<and>
   (\<forall>a0 k0 s0. acc = Some (a0, k0, s0) \<longrightarrow> ahk \<le> a0) \<and>
   (ahk \<noteq> 1 \<longrightarrow> (\<forall>p \<in> set ps. \<bar>snd p\<bar> = ahk \<longrightarrow> k \<le> fst p) \<and>
                (\<forall>a0 k0 s0. acc = Some (a0, k0, s0) \<longrightarrow> a0 = ahk \<longrightarrow> k \<le> k0)) \<and>
   (ahk = 1 \<longrightarrow> (\<forall>a0 k0 s0. acc = Some (a0, k0, s0) \<longrightarrow> a0 \<noteq> 1) \<longrightarrow> first_unit ps = Some k)"
proof (induction ps arbitrary: acc)
  case Nil
  then show ?case by auto
next
  case (Cons p ps)
  obtain j a where p: "p = (j, a)" by (cases p)
  have ge: "1 \<le> \<bar>a\<bar>" and rest: "list_all (\<lambda>p. 1 \<le> \<bar>snd p\<bar>) ps"
    using Cons.prems(1) p by auto
  let ?upd = "(case acc of None \<Rightarrow> True | Some (ahk, k, ks) \<Rightarrow> \<bar>a\<bar> < ahk \<or> (\<bar>a\<bar> = ahk \<and> j < k))"
  let ?sg = "(if 0 < a then 1 else - 1) :: int"
  have sg: "of_int ?sg * \<bar>a\<bar> = a" by auto
  have eq: "find_minimal_abs_coeff_loop acc (p # ps) =
    (if ?upd then (if \<bar>a\<bar> = 1 then Some (\<bar>a\<bar>, j, ?sg)
                   else find_minimal_abs_coeff_loop (Some (\<bar>a\<bar>, j, ?sg)) ps)
     else find_minimal_abs_coeff_loop acc ps)"
    unfolding p by (simp add: Let_def)
  show ?case
  proof (cases ?upd)
    case False
    have run: "find_minimal_abs_coeff_loop acc ps = Some (ahk, k, ks)"
      using Cons.prems(2) eq False by (simp only: if_False)
    note ih = Cons.IH[OF rest run]
    from False obtain a0 k0 s0 where acc: "acc = Some (a0, k0, s0)"
      by (cases acc) auto
    from False acc have na: "\<not> \<bar>a\<bar> < a0" "\<bar>a\<bar> = a0 \<longrightarrow> \<not> j < k0" by auto
    from ih acc have le: "ahk \<le> a0" by auto
    show ?thesis using ih acc na le ge p by (auto split: if_splits)
  next
    case True
    show ?thesis
    proof (cases "\<bar>a\<bar> = 1")
      case one: True
      have "find_minimal_abs_coeff_loop acc (p # ps) =
          (if \<bar>a\<bar> = 1 then Some (\<bar>a\<bar>, j, ?sg)
           else find_minimal_abs_coeff_loop (Some (\<bar>a\<bar>, j, ?sg)) ps)"
        using eq True by (simp only: if_True)
      with one have "find_minimal_abs_coeff_loop acc (p # ps) = Some (\<bar>a\<bar>, j, ?sg)"
        by simp
      then have res: "ahk = 1" "k = j" "ks = ?sg"
        using Cons.prems(2) one by auto
      have mem: "(k, of_int ks * ahk) \<in> set (p # ps)"
        using res sg one p by (simp del: of_int_minus)
      have all: "\<forall>p \<in> set (p # ps). ahk \<le> \<bar>snd p\<bar>"
        using Cons.prems(1) res by (auto simp: list_all_iff)
      have accle: "\<forall>a0 k0 s0. acc = Some (a0, k0, s0) \<longrightarrow> ahk \<le> a0"
        using True res one by auto
      show ?thesis using mem all accle res one p by simp
    next
      case notone: False
      have run: "find_minimal_abs_coeff_loop (Some (\<bar>a\<bar>, j, ?sg)) ps = Some (ahk, k, ks)"
        using Cons.prems(2) eq True notone by (simp only: if_True if_False)
      note ih = Cons.IH[OF rest run]
      have le: "ahk \<le> \<bar>a\<bar>" using ih by auto
      have c1: "acc = Some (ahk, k, ks) \<or> (k, of_int ks * ahk) \<in> set (p # ps)"
        using ih sg p by (auto simp del: of_int_minus)
      have c2: "\<forall>p \<in> set (p # ps). ahk \<le> \<bar>snd p\<bar>" using ih le p by auto
      have c3: "\<forall>a0 k0 s0. acc = Some (a0, k0, s0) \<longrightarrow> ahk \<le> a0"
        using True le by auto
      have c4: "ahk \<noteq> 1 \<longrightarrow> (\<forall>p \<in> set (p # ps). \<bar>snd p\<bar> = ahk \<longrightarrow> k \<le> fst p) \<and>
                (\<forall>a0 k0 s0. acc = Some (a0, k0, s0) \<longrightarrow> a0 = ahk \<longrightarrow> k \<le> k0)"
        using ih True le p by auto
      have c5: "ahk = 1 \<longrightarrow> first_unit (p # ps) = Some k"
        using ih notone p by auto
      show ?thesis using c1 c2 c3 c4 c5 by blast
    qed
  qed
qed

lemma find_minimal_abs_coeff_loop_Some:
  "\<exists>y. find_minimal_abs_coeff_loop (Some x) ps = Some y"
  by (induction ps arbitrary: x) (auto simp: Let_def)

lemma find_minimal_abs_coeff_nonempty:
  "r \<noteq> [] \<Longrightarrow> \<exists>x. find_minimal_abs_coeff r = Some x"
proof (cases r)
  case Nil
  assume "r \<noteq> []"
  with Nil show ?thesis by simp
next
  case (Cons p ps)
  obtain j a where p: "p = (j, a)" by (cases p)
  show ?thesis
    using find_minimal_abs_coeff_loop_Some[of "(\<bar>a\<bar>, j, if 0 < a then 1 else - 1)" ps]
    unfolding find_minimal_abs_coeff_def Cons p by (simp add: Let_def)
qed

lemma find_minimal_abs_coeff_loop_sign:
  "find_minimal_abs_coeff_loop acc ps = Some (ahk, k, ks) \<Longrightarrow>
   (\<forall>a0 k0 s0. acc = Some (a0, k0, s0) \<longrightarrow> s0 = 1 \<or> s0 = - 1) \<Longrightarrow>
   ks = 1 \<or> ks = - 1"
proof (induction ps arbitrary: acc)
  case Nil
  then show ?case by simp
next
  case (Cons p ps)
  obtain j a where p: "p = (j, a)" by (cases p)
  show ?case
    using Cons.prems Cons.IH[of acc] Cons.IH[of "Some (\<bar>a\<bar>, j, if 0 < a then 1 else - 1)"]
    unfolding p by (simp add: Let_def split: if_splits)
qed

lemma int_row_abs_ge1: "int_row r \<Longrightarrow> list_all (\<lambda>p. 1 \<le> \<bar>snd p\<bar>) r"
  unfolding int_row_def list_all_iff by (auto intro: is_int_abs_ge1)

lemma find_minimal_abs_coeff_loop_nonneg:
  "find_minimal_abs_coeff_loop acc ps = Some (ahk, k, ks) \<Longrightarrow>
   (\<forall>a0 k0 s0. acc = Some (a0, k0, s0) \<longrightarrow> 0 \<le> a0) \<Longrightarrow>
   0 \<le> ahk"
proof (induction ps arbitrary: acc)
  case Nil
  then show ?case by simp
next
  case (Cons p ps)
  obtain j a where p: "p = (j, a)" by (cases p)
  let ?new = "Some (\<bar>a\<bar>, j, (if 0 < a then 1 else - 1) :: int)"
  have new: "\<forall>a0 k0 s0. ?new = Some (a0, k0, s0) \<longrightarrow> 0 \<le> a0" by simp
  from Cons.prems(1) have
    "find_minimal_abs_coeff_loop acc ps = Some (ahk, k, ks) \<or>
     find_minimal_abs_coeff_loop ?new ps = Some (ahk, k, ks) \<or>
     ahk = \<bar>a\<bar>"
    unfolding p by (auto simp: Let_def split: if_splits)
  then show ?case
    using Cons.IH[OF _ Cons.prems(2)] Cons.IH[OF _ new] by auto
qed

lemma get_coeff_member:
  "distinct (map fst r) \<Longrightarrow> (k, a) \<in> set r \<Longrightarrow> get_coeff r k = a"
  by (simp add: get_coeff_def)

text \<open>
  C7 (as amended). On a non-empty row of non-zero integer coefficients,
  \<open>find_minimal_abs_coeff\<close> returns \<open>(ahk, k, k_sign)\<close> where \<open>k\<close> is a variable of the
  row, \<open>ahk\<close> is the absolute value of its coefficient, \<open>k_sign\<close> is the sign of the
  coefficient, and \<open>ahk\<close> is the minimum of the absolute coefficients of the row. When
  that minimum is not 1, the variable returned is the smallest among the entries of
  minimal absolute coefficient. When the minimum is 1, the loop stops at the first entry
  in storage order whose coefficient is 1 or -1 and returns its variable.
\<close>

theorem find_minimal_abs_coeff_pivot:
  assumes "int_row r" and "r \<noteq> []"
  shows "\<exists>ahk k ks. find_minimal_abs_coeff r = Some (ahk, k, ks) \<and>
           (k, get_coeff r k) \<in> set r \<and>
           ahk = \<bar>get_coeff r k\<bar> \<and> 1 \<le> ahk \<and>
           ks = (if 0 < get_coeff r k then 1 else - 1) \<and>
           get_coeff r k = of_int ks * ahk \<and>
           (\<forall>p \<in> set r. ahk \<le> \<bar>snd p\<bar>) \<and>
           (ahk \<noteq> 1 \<longrightarrow> (\<forall>p \<in> set r. \<bar>snd p\<bar> = ahk \<longrightarrow> k \<le> fst p)) \<and>
           (ahk = 1 \<longrightarrow> first_unit r = Some k)"
proof -
  from find_minimal_abs_coeff_nonempty[OF assms(2)]
  obtain ahk k ks where run: "find_minimal_abs_coeff r = Some (ahk, k, ks)"
    by (metis prod_cases3)
  note sp = find_minimal_abs_coeff_loop_spec[OF int_row_abs_ge1[OF assms(1)]
          run[unfolded find_minimal_abs_coeff_def]]
  have mem: "(k, of_int ks * ahk) \<in> set r" using sp by simp
  have least: "\<forall>p \<in> set r. ahk \<le> \<bar>snd p\<bar>" using sp by simp
  have tie: "ahk \<noteq> 1 \<longrightarrow> (\<forall>p \<in> set r. \<bar>snd p\<bar> = ahk \<longrightarrow> k \<le> fst p)" using sp by simp
  have unit: "ahk = 1 \<longrightarrow> first_unit r = Some k" using sp by simp
  have sgn: "ks = 1 \<or> ks = - 1"
    using find_minimal_abs_coeff_loop_sign[OF run[unfolded find_minimal_abs_coeff_def]] by simp
  have nn: "0 \<le> ahk"
    using find_minimal_abs_coeff_loop_nonneg[OF run[unfolded find_minimal_abs_coeff_def]] by simp
  have d: "distinct (map fst r)" using assms(1) by (simp add: int_row_def)
  have gc: "get_coeff r k = of_int ks * ahk" by (rule get_coeff_member[OF d mem])
  have ab: "ahk = \<bar>get_coeff r k\<bar>" unfolding gc using sgn nn by auto
  have mem': "(k, get_coeff r k) \<in> set r" using mem gc by simp
  have "\<forall>p \<in> set r. 1 \<le> \<bar>snd p\<bar>"
    using int_row_abs_ge1[OF assms(1)] unfolding list_all_iff .
  from this mem' have "1 \<le> \<bar>snd (k, get_coeff r k)\<bar>" by (rule bspec)
  then have ge1: "1 \<le> ahk" using ab by simp
  have sg: "ks = (if 0 < get_coeff r k then 1 else - 1)"
    unfolding gc using sgn ge1 by auto
  show ?thesis using run mem' ab ge1 sg gc least tie unit by blast
qed

theorem find_minimal_abs_coeff_pivot_witness:
  "int_row [(0, 3), (1, 2), (2, - 2)] \<and> [(0, 3), (1, 2), (2, - 2)] \<noteq> ([] :: row_strip) \<and>
   find_minimal_abs_coeff [(0, 3), (1, 2), (2, - 2)] = Some (2, 1, 1) \<and>
   get_coeff [(0, 3), (1, 2), (2, - 2)] 1 = 2 \<and>
   int_row [(2, 3), (1, - 1), (0, 1)] \<and> [(2, 3), (1, - 1), (0, 1)] \<noteq> ([] :: row_strip) \<and>
   find_minimal_abs_coeff [(2, 3), (1, - 1), (0, 1)] = Some (1, 1, - 1) \<and>
   get_coeff [(2, 3), (1, - 1), (0, 1)] 1 = - 1 \<and>
   first_unit [(2, 3), (1, - 1), (0, 1)] = Some 1"
  using find_minimal_abs_coeff_pivot[of "[(0, 3), (1, 2), (2, - 2)]"]
        find_minimal_abs_coeff_pivot[of "[(2, 3), (1, - 1), (0, 1)]"]
  by (simp add: int_row_def find_minimal_abs_coeff_def get_coeff_def)

text \<open>
  C7 as stated fails on the row \<open>x1 + x0\<close> (cells in this storage order): both
  coefficients have the minimal absolute value 1, variable 0 is the smaller one, and the
  loop returns variable 1, the first cell, because it stops as soon as \<open>ahk\<close> is one.
\<close>

theorem find_minimal_abs_coeff_tie_counterexample:
  "int_row [(1, 1), (0, 1)] \<and>
   find_minimal_abs_coeff [(1, 1), (0, 1)] = Some (1, 1, 1) \<and>
   get_coeff [(1, 1), (0, 1)] 0 = 1 \<and> (0 :: nat) < 1"
  by (simp add: int_row_def find_minimal_abs_coeff_def get_coeff_def)

section \<open>Properties of the normalization by the gcd\<close>

lemma gcd_of_coeffs_loop_Gcd:
  "0 \<le> n \<Longrightarrow> list_all (\<lambda>p. is_int (snd p)) ps \<Longrightarrow>
   gcd_of_coeffs_loop (of_int n) ps = of_int (gcd n (Gcd (set (map (\<lambda>p. \<lfloor>snd p\<rfloor>) ps))))"
proof (induction ps arbitrary: n)
  case Nil
  then show ?case by simp
next
  case (Cons p ps)
  obtain j a where p: "p = (j, a)" by (cases p)
  from Cons.prems(2) p obtain m :: int where a: "a = of_int m"
    by (auto elim: is_intE)
  have rest: "list_all (\<lambda>p. is_int (snd p)) ps" using Cons.prems(2) by simp
  let ?G = "Gcd (set (map (\<lambda>p. \<lfloor>snd p\<rfloor>) ps))"
  have g': "(if (of_int n :: rat) = 0 then \<bar>a\<bar> else gcd_mpq (of_int n) a) = of_int (gcd n m)"
    using a by (auto simp: gcd_mpq_def)
  have rhs: "gcd n (Gcd (set (map (\<lambda>p. \<lfloor>snd p\<rfloor>) (p # ps)))) = gcd (gcd n m) ?G"
    using p a by (simp add: gcd.assoc)
  show ?case
  proof (cases "gcd n m = 1")
    case True
    have "gcd_of_coeffs_loop (of_int n) (p # ps) = 1"
      unfolding p using g' True by (simp add: Let_def)
    moreover have "gcd (gcd n m) ?G = 1" using True by simp
    ultimately show ?thesis unfolding rhs by simp
  next
    case False
    have "gcd_of_coeffs_loop (of_int n) (p # ps) = gcd_of_coeffs_loop (of_int (gcd n m)) ps"
      unfolding p using g' False by (simp add: Let_def)
    also have "\<dots> = of_int (gcd (gcd n m) ?G)"
      by (rule Cons.IH[OF _ rest]) simp
    finally show ?thesis unfolding rhs .
  qed
qed

lemma gcd_of_coeffs_Gcd:
  "list_all (\<lambda>p. is_int (snd p)) r \<Longrightarrow>
   gcd_of_coeffs r = of_int (Gcd (set (map (\<lambda>p. \<lfloor>snd p\<rfloor>) r)))"
  using gcd_of_coeffs_loop_Gcd[of 0 r] by (simp add: gcd_of_coeffs_def)

lemma normalize_e_by_gcd_trivial:
  "gcd_of_coeffs (e_row s ei) = 0 \<or> gcd_of_coeffs (e_row s ei) = 1 \<Longrightarrow>
   normalize_e_by_gcd H ei s = Some (True, s)"
  by (auto simp: normalize_e_by_gcd_def Let_def)

lemma normalize_e_by_gcd_divides:
  assumes "gcd_of_coeffs (e_row s ei) = g" "g \<noteq> 0" "g \<noteq> 1"
      and "is_int (m_c (m_entries s ! ei) / g)"
  shows "normalize_e_by_gcd H ei s =
     Some (True,
       s\<lparr>m_e_matrix := (m_e_matrix s)\<lparr>m_rows :=
             (m_rows (m_e_matrix s))[ei := map (\<lambda>p. (fst p, snd p / g)) (e_row s ei)]\<rparr>,
         m_entries := (m_entries s)[ei := (m_entries s ! ei)\<lparr>m_c := m_c (m_entries s ! ei) / g\<rparr>],
         m_l_matrix := (m_l_matrix s)\<lparr>m_rows :=
             (m_rows (m_l_matrix s))[ei := map (\<lambda>p. (fst p, snd p / g)) (l_row s ei)]\<rparr>\<rparr>)"
  using assms by (simp add: normalize_e_by_gcd_def Let_def divide_row_cells_def)

lemma normalize_e_by_gcd_conflict:
  assumes "gcd_of_coeffs (e_row s ei) = g" "g \<noteq> 0" "g \<noteq> 1"
      and "\<not> is_int (m_c (m_entries s ! ei) / g)"
      and "dio_cut_from_proof_period H (lra s) \<noteq> 0"
  shows "normalize_e_by_gcd H ei s =
     Some (False,
       if m_dio_calls (stats s) mod dio_cut_from_proof_period H (lra s) = 0 \<and> \<not> has_fresh_var s ei
       then prepare_lia_branch_report ei g (m_c (m_entries s ! ei) / g) s else s)"
  using assms by (simp add: normalize_e_by_gcd_def Let_def)

lemma normalize_e_by_gcd_fault:
  assumes "gcd_of_coeffs (e_row s ei) = g" "g \<noteq> 0" "g \<noteq> 1"
      and "\<not> is_int (m_c (m_entries s ! ei) / g)"
      and "dio_cut_from_proof_period H (lra s) = 0"
  shows "normalize_e_by_gcd H ei s = None"
  using assms by (simp add: normalize_e_by_gcd_def Let_def)

lemma normalize_by_gcd_loop_conflict:
  "normalize_e_by_gcd H l s = Some (False, s') \<Longrightarrow>
   normalize_by_gcd_loop H (l # ls) s = Some (False, s'\<lparr>m_conflict_index := l\<rparr>)"
  by simp

lemma normalize_by_gcd_loop_success:
  "normalize_e_by_gcd H l s = Some (True, s') \<Longrightarrow>
   normalize_by_gcd_loop H (l # ls) s = normalize_by_gcd_loop H ls s'"
  by simp

lemma normalize_by_gcd_loop_append:
  "normalize_by_gcd_loop H pre s0 = Some (True, s) \<Longrightarrow>
   normalize_by_gcd_loop H (pre @ ls) s0 = normalize_by_gcd_loop H ls s"
proof (induction pre arbitrary: s0)
  case Nil
  then show ?case by simp
next
  case (Cons l pre)
  from Cons.prems obtain ok s1 where n: "normalize_e_by_gcd H l s0 = Some (ok, s1)"
    by (cases "normalize_e_by_gcd H l s0") auto
  from Cons.prems n have ok: "ok" by (cases ok) auto
  from Cons.prems n ok have "normalize_by_gcd_loop H pre s1 = Some (True, s)" by simp
  from Cons.IH[OF this] n ok show ?case by simp
qed

lemma normalize_e_by_gcd_conflict_fields:
  assumes "normalize_e_by_gcd H ei s = Some (False, s')"
  shows "m_e_matrix s' = m_e_matrix s"
    and "m_l_matrix s' = m_l_matrix s"
    and "m_entries s' = m_entries s"
    and "m_var_register s' = m_var_register s"
    and "m_fresh_definitions s' = m_fresh_definitions s"
    and "lra s' = lra s"
    and "m_f s' = m_f s"
    and "m_k2s s' = m_k2s s"
  using assms
  by (auto simp: normalize_e_by_gcd_def Let_def prepare_lia_branch_report_def
           split: if_splits)

lemma get_term_from_entry_cong:
  "m_entries s' = m_entries s \<Longrightarrow> m_e_matrix s' = m_e_matrix s \<Longrightarrow>
   get_term_from_entry s' i = get_term_from_entry s i"
  by (simp add: get_term_from_entry_def)

lemma fresh_vars_of_cong:
  "m_var_register s' = m_var_register s \<Longrightarrow> fresh_vars_of s' r = fresh_vars_of s r"
  by (simp add: fresh_vars_of_def is_fresh_var_def[abs_def])

lemma remove_fresh_vars_loop_cong_Some:
  fixes s s' :: "'h imp"
  assumes run: "remove_fresh_vars_loop s q t = Some r"
      and core: "m_var_register s' = m_var_register s" "m_entries s' = m_entries s"
                "m_e_matrix s' = m_e_matrix s" "m_fresh_definitions s' = m_fresh_definitions s"
  shows "remove_fresh_vars_loop s' q t = Some r"
proof -
  have "\<forall>s' :: 'h imp. m_var_register s' = m_var_register s \<and> m_entries s' = m_entries s \<and>
          m_e_matrix s' = m_e_matrix s \<and> m_fresh_definitions s' = m_fresh_definitions s
          \<longrightarrow> remove_fresh_vars_loop s' q t = Some r"
  proof (rule remove_fresh_vars_loop.raw_induct[where P = "\<lambda>s q t r.
          \<forall>s' :: 'h imp. m_var_register s' = m_var_register s \<and> m_entries s' = m_entries s \<and>
          m_e_matrix s' = m_e_matrix s \<and> m_fresh_definitions s' = m_fresh_definitions s
          \<longrightarrow> remove_fresh_vars_loop s' q t = Some r", OF _ run], goal_cases)
    case (1 f s q t r)
    note IH = 1(1) and body = 1(2)
    show ?case
    proof (intro allI impI, elim conjE)
      fix s' :: "'h imp"
      assume c: "m_var_register s' = m_var_register s" "m_entries s' = m_entries s"
                "m_e_matrix s' = m_e_matrix s" "m_fresh_definitions s' = m_fresh_definitions s"
      note gt = get_term_from_entry_cong[OF c(2) c(3)]
      note fv = fresh_vars_of_cong[OF c(1)]
      show "remove_fresh_vars_loop s' q t = Some r"
      proof (cases q)
        case Nil
        with body show ?thesis
          by (subst remove_fresh_vars_loop.simps) simp
      next
        case (Cons xt q')
        show ?thesis
        proof (cases "contains_var (t_coeffs t) xt")
          case False
          with body Cons have "f s q' t = Some r" by (simp add: Let_def)
          from IH[OF this] c have "remove_fresh_vars_loop s' q' t = Some r" by blast
          then show ?thesis
            using False Cons by (subst remove_fresh_vars_loop.simps) (simp add: Let_def)
        next
          case True
          let ?ft0 = "get_term_from_entry s (fst (m_fresh_definitions s ! xt))"
          let ?ft = "?ft0\<lparr>t_coeffs := erase_var xt (t_coeffs ?ft0)\<rparr>"
          let ?t2 = "term_add (t\<lparr>t_coeffs := erase_var xt (t_coeffs t)\<rparr>)
                       (term_scale (get_coeff (t_coeffs t) xt) ?ft)"
          from body Cons True
          have "f s (q' @ fresh_vars_of s (t_coeffs ?t2)) ?t2 = Some r" by (simp add: Let_def)
          from IH[OF this] c
          have "remove_fresh_vars_loop s' (q' @ fresh_vars_of s (t_coeffs ?t2)) ?t2 = Some r"
            by blast
          then show ?thesis
            using True Cons gt fv c(4)
            by (subst remove_fresh_vars_loop.simps) (simp add: Let_def)
        qed
      qed
    qed
  qed
  with core show ?thesis by blast
qed

lemma remove_fresh_vars_loop_cong:
  fixes s s' :: "'h imp"
  assumes "m_var_register s' = m_var_register s" "m_entries s' = m_entries s"
          "m_e_matrix s' = m_e_matrix s" "m_fresh_definitions s' = m_fresh_definitions s"
  shows "remove_fresh_vars_loop s' q t = remove_fresh_vars_loop s q t"
proof (cases "remove_fresh_vars_loop s q t")
  case (Some r)
  from remove_fresh_vars_loop_cong_Some[OF Some assms] Some show ?thesis by simp
next
  case None
  show ?thesis
  proof (cases "remove_fresh_vars_loop s' q t")
    case (Some r)
    from remove_fresh_vars_loop_cong_Some[OF Some assms(1-4)[symmetric]] None show ?thesis by simp
  next
    case None': None
    with None show ?thesis by simp
  qed
qed

lemma fix_vars_loop_cong: "lra s' = lra s \<Longrightarrow> fix_vars_loop H s' t r = fix_vars_loop H s t r"
  by (induction t arbitrary: r) (auto simp: is_fixed_def)

lemma open_ml_loop_cong: "lra s' = lra s \<Longrightarrow> open_ml_loop H s' t r = open_ml_loop H s t r"
  by (induction t arbitrary: r) auto

lemma entry_invariant_cong:
  fixes s s' :: "'h imp"
  assumes "m_var_register s' = m_var_register s" "m_entries s' = m_entries s"
          "m_e_matrix s' = m_e_matrix s" "m_fresh_definitions s' = m_fresh_definitions s"
          "m_l_matrix s' = m_l_matrix s" "lra s' = lra s"
  shows "entry_invariant H s' ei = entry_invariant H s ei"
proof -
  have a: "remove_fresh_vars s' = remove_fresh_vars s"
    by (rule ext)
       (simp add: remove_fresh_vars_def remove_fresh_vars_loop_cong[OF assms(1-4)]
          fresh_vars_of_cong[OF assms(1)])
  have b: "get_term_from_entry s' ei = get_term_from_entry s ei"
    by (rule get_term_from_entry_cong[OF assms(2,3)])
  have c: "term_to_lar_solver s' = term_to_lar_solver s"
    by (rule ext) (simp add: term_to_lar_solver_def local_to_lar_solver_def assms(1))
  have d: "fix_vars H s' = fix_vars H s"
    by (rule ext) (simp add: fix_vars_def fix_vars_loop_cong[OF assms(6)])
  have e: "open_ml H s' = open_ml H s"
    by (rule ext) (simp add: open_ml_def open_ml_loop_cong[OF assms(6)])
  show ?thesis
    unfolding entry_invariant_def a b c d e assms(3) assms(5) ..
qed

text \<open>
  C2. \<open>normalize_by_gcd\<close>, run on \<open>s0\<close>, reaches the row \<open>ei\<close> of \<open>m_f\<close> in the state
  \<open>s\<close>; the row has integer coefficients and the period of the cuts is not zero. Then
  \<open>g\<close> computed by \<open>gcd_of_coeffs\<close> is the gcd of the coefficients. If \<open>g\<close> is 0 or 1,
  \<open>normalize_e_by_gcd\<close> returns true and the state as it was. If \<open>g > 1\<close> and \<open>c / g\<close>
  is an integer, it returns true, every coefficient of the E-row and of the L-row of \<open>ei\<close>
  is divided by \<open>g\<close>, the constant becomes \<open>c / g\<close>, and nothing else changes; in both
  cases \<open>normalize_by_gcd\<close> goes on with the rows after \<open>ei\<close>. If \<open>c / g\<close> is not an
  integer, \<open>normalize_e_by_gcd\<close> returns false and \<open>normalize_by_gcd\<close> returns false
  with \<open>m_conflict_index = ei\<close>.
\<close>

theorem normalize_e_by_gcd_spec:
  fixes s s0 :: "'h imp"
  assumes "ei < length (m_rows (m_e_matrix s))" "ei < length (m_rows (m_l_matrix s))"
          "ei < length (m_entries s)"
      and "list_all (\<lambda>p. is_int (snd p)) (e_row s ei)"
      and "gcd_of_coeffs (e_row s ei) = g" and "m_c (m_entries s ! ei) = c"
      and "dio_cut_from_proof_period H (lra s) \<noteq> 0"
      and "m_f s0 = pre @ ei # post" and "normalize_by_gcd_loop H pre s0 = Some (True, s)"
  shows "g = of_int (Gcd (set (map (\<lambda>p. \<lfloor>snd p\<rfloor>) (e_row s ei)))) \<and>
     (g = 0 \<or> g = 1 \<longrightarrow>
        normalize_e_by_gcd H ei s = Some (True, s) \<and>
        normalize_by_gcd H s0 = normalize_by_gcd_loop H post s) \<and>
     (1 < g \<and> is_int (c / g) \<longrightarrow>
        (\<exists>s'. normalize_e_by_gcd H ei s = Some (True, s') \<and>
           s' = s\<lparr>m_e_matrix := (m_e_matrix s)\<lparr>m_rows :=
                       (m_rows (m_e_matrix s))[ei := map (\<lambda>p. (fst p, snd p / g)) (e_row s ei)]\<rparr>,
                   m_entries := (m_entries s)[ei := (m_entries s ! ei)\<lparr>m_c := c / g\<rparr>],
                   m_l_matrix := (m_l_matrix s)\<lparr>m_rows :=
                       (m_rows (m_l_matrix s))[ei := map (\<lambda>p. (fst p, snd p / g)) (l_row s ei)]\<rparr>\<rparr> \<and>
           e_row s' ei = map (\<lambda>p. (fst p, snd p / g)) (e_row s ei) \<and>
           l_row s' ei = map (\<lambda>p. (fst p, snd p / g)) (l_row s ei) \<and>
           m_c (m_entries s' ! ei) = c / g \<and>
           m_entry_status (m_entries s' ! ei) = m_entry_status (m_entries s ! ei) \<and>
           normalize_by_gcd H s0 = normalize_by_gcd_loop H post s')) \<and>
     (1 < g \<and> \<not> is_int (c / g) \<longrightarrow>
        (\<exists>s'. normalize_e_by_gcd H ei s = Some (False, s') \<and>
           normalize_by_gcd H s0 = Some (False, s'\<lparr>m_conflict_index := ei\<rparr>) \<and>
           m_conflict_index (snd (the (normalize_by_gcd H s0))) = ei))"
proof -
  have g: "g = of_int (Gcd (set (map (\<lambda>p. \<lfloor>snd p\<rfloor>) (e_row s ei))))"
    using gcd_of_coeffs_Gcd[OF assms(4)] assms(5) by simp
  have whole: "normalize_by_gcd H s0 = normalize_by_gcd_loop H (ei # post) s"
    unfolding normalize_by_gcd_def assms(8) by (rule normalize_by_gcd_loop_append[OF assms(9)])
  have triv: "g = 0 \<or> g = 1 \<longrightarrow>
        normalize_e_by_gcd H ei s = Some (True, s) \<and>
        normalize_by_gcd H s0 = normalize_by_gcd_loop H post s"
  proof
    assume g01: "g = 0 \<or> g = 1"
    have n: "normalize_e_by_gcd H ei s = Some (True, s)"
      using normalize_e_by_gcd_trivial[of s ei H] assms(5) g01 by simp
    show "normalize_e_by_gcd H ei s = Some (True, s) \<and>
        normalize_by_gcd H s0 = normalize_by_gcd_loop H post s"
      using n whole normalize_by_gcd_loop_success[OF n, of post] by simp
  qed
  have dvd: "1 < g \<and> is_int (c / g) \<longrightarrow>
        (\<exists>s'. normalize_e_by_gcd H ei s = Some (True, s') \<and>
           s' = s\<lparr>m_e_matrix := (m_e_matrix s)\<lparr>m_rows :=
                       (m_rows (m_e_matrix s))[ei := map (\<lambda>p. (fst p, snd p / g)) (e_row s ei)]\<rparr>,
                   m_entries := (m_entries s)[ei := (m_entries s ! ei)\<lparr>m_c := c / g\<rparr>],
                   m_l_matrix := (m_l_matrix s)\<lparr>m_rows :=
                       (m_rows (m_l_matrix s))[ei := map (\<lambda>p. (fst p, snd p / g)) (l_row s ei)]\<rparr>\<rparr> \<and>
           e_row s' ei = map (\<lambda>p. (fst p, snd p / g)) (e_row s ei) \<and>
           l_row s' ei = map (\<lambda>p. (fst p, snd p / g)) (l_row s ei) \<and>
           m_c (m_entries s' ! ei) = c / g \<and>
           m_entry_status (m_entries s' ! ei) = m_entry_status (m_entries s ! ei) \<and>
           normalize_by_gcd H s0 = normalize_by_gcd_loop H post s')"
  proof (intro impI, elim conjE)
    assume g1: "1 < g" and ci: "is_int (c / g)"
    have g0: "g \<noteq> 0" "g \<noteq> 1" using g1 by auto
    have ci': "is_int (m_c (m_entries s ! ei) / g)" using ci assms(6) by simp
    let ?s' = "s\<lparr>m_e_matrix := (m_e_matrix s)\<lparr>m_rows :=
                       (m_rows (m_e_matrix s))[ei := map (\<lambda>p. (fst p, snd p / g)) (e_row s ei)]\<rparr>,
                   m_entries := (m_entries s)[ei := (m_entries s ! ei)\<lparr>m_c := c / g\<rparr>],
                   m_l_matrix := (m_l_matrix s)\<lparr>m_rows :=
                       (m_rows (m_l_matrix s))[ei := map (\<lambda>p. (fst p, snd p / g)) (l_row s ei)]\<rparr>\<rparr>"
    have n: "normalize_e_by_gcd H ei s = Some (True, ?s')"
      using normalize_e_by_gcd_divides[OF assms(5) g0 ci', of H] assms(6) by simp
    have r: "e_row ?s' ei = map (\<lambda>p. (fst p, snd p / g)) (e_row s ei)"
            "l_row ?s' ei = map (\<lambda>p. (fst p, snd p / g)) (l_row s ei)"
            "m_c (m_entries ?s' ! ei) = c / g"
            "m_entry_status (m_entries ?s' ! ei) = m_entry_status (m_entries s ! ei)"
      using assms(1-3) by simp_all
    have w: "normalize_by_gcd H s0 = normalize_by_gcd_loop H post ?s'"
      using whole normalize_by_gcd_loop_success[OF n, of post] by simp
    show "\<exists>s'. normalize_e_by_gcd H ei s = Some (True, s') \<and>
           s' = ?s' \<and>
           e_row s' ei = map (\<lambda>p. (fst p, snd p / g)) (e_row s ei) \<and>
           l_row s' ei = map (\<lambda>p. (fst p, snd p / g)) (l_row s ei) \<and>
           m_c (m_entries s' ! ei) = c / g \<and>
           m_entry_status (m_entries s' ! ei) = m_entry_status (m_entries s ! ei) \<and>
           normalize_by_gcd H s0 = normalize_by_gcd_loop H post s'"
      using n r w by blast
  qed
  have cf: "1 < g \<and> \<not> is_int (c / g) \<longrightarrow>
        (\<exists>s'. normalize_e_by_gcd H ei s = Some (False, s') \<and>
           normalize_by_gcd H s0 = Some (False, s'\<lparr>m_conflict_index := ei\<rparr>) \<and>
           m_conflict_index (snd (the (normalize_by_gcd H s0))) = ei)"
  proof (intro impI, elim conjE)
    assume g1: "1 < g" and ci: "\<not> is_int (c / g)"
    have g0: "g \<noteq> 0" "g \<noteq> 1" using g1 by auto
    have ci': "\<not> is_int (m_c (m_entries s ! ei) / g)" using ci assms(6) by simp
    from normalize_e_by_gcd_conflict[OF assms(5) g0 ci' assms(7)]
    obtain s' where n: "normalize_e_by_gcd H ei s = Some (False, s')" by blast
    have w: "normalize_by_gcd H s0 = Some (False, s'\<lparr>m_conflict_index := ei\<rparr>)"
      using whole normalize_by_gcd_loop_conflict[OF n, of post] by simp
    show "\<exists>s'. normalize_e_by_gcd H ei s = Some (False, s') \<and>
           normalize_by_gcd H s0 = Some (False, s'\<lparr>m_conflict_index := ei\<rparr>) \<and>
           m_conflict_index (snd (the (normalize_by_gcd H s0))) = ei"
      using n w by simp
  qed
  show ?thesis using g triv dvd cf by blast
qed

lemma one_row_gcd: "gcd_of_coeffs [(0, 2), (Suc 0, 4)] = 2"
  by code_simp

lemma is_int_6_2: "is_int (- 6 / 2)"
  by code_simp

lemma not_is_int_3_2: "\<not> is_int (- (3 / 2))"
  by code_simp

lemma one_row_state_facts:
  "0 < length (m_rows (m_e_matrix (one_row_state v)))"
  "0 < length (m_rows (m_l_matrix (one_row_state v)))"
  "0 < length (m_entries (one_row_state v))"
  "list_all (\<lambda>p. is_int (snd p)) (e_row (one_row_state v) 0)"
  "gcd_of_coeffs (e_row (one_row_state v) 0) = 2"
  "m_c (m_entries (one_row_state v) ! 0) = - v"
  "dio_cut_from_proof_period toy_host (lra (one_row_state v)) \<noteq> 0"
  "m_f (one_row_state v) = [] @ 0 # []"
  "normalize_by_gcd_loop toy_host [] (one_row_state v) = Some (True, one_row_state v)"
  by (simp_all add: one_row_state_def imp_init_def one_row_gcd toy_host_def toy_empty_def)

theorem normalize_e_by_gcd_spec_witness:
  "0 < length (m_rows (m_e_matrix (one_row_state 6))) \<and>
   0 < length (m_rows (m_l_matrix (one_row_state 6))) \<and>
   0 < length (m_entries (one_row_state 6)) \<and>
   list_all (\<lambda>p. is_int (snd p)) (e_row (one_row_state 6) 0) \<and>
   gcd_of_coeffs (e_row (one_row_state 6) 0) = 2 \<and>
   m_c (m_entries (one_row_state 6) ! 0) = - 6 \<and>
   dio_cut_from_proof_period toy_host (lra (one_row_state 6)) \<noteq> 0 \<and>
   m_f (one_row_state 6) = [] @ 0 # [] \<and>
   normalize_by_gcd_loop toy_host [] (one_row_state 6) = Some (True, one_row_state 6) \<and>
   1 < (2 :: mpq) \<and> is_int (- 6 / 2) \<and>
   fst (the (normalize_e_by_gcd toy_host 0 (one_row_state 6))) \<and>
   e_row (snd (the (normalize_e_by_gcd toy_host 0 (one_row_state 6)))) 0 = [(0, 1), (1, 2)] \<and>
   l_row (snd (the (normalize_e_by_gcd toy_host 0 (one_row_state 6)))) 0 = [(2, 1 / 2)] \<and>
   m_c (m_entries (snd (the (normalize_e_by_gcd toy_host 0 (one_row_state 6)))) ! 0) = - 3 \<and>
   normalize_by_gcd toy_host (one_row_state 6) =
     Some (True, snd (the (normalize_e_by_gcd toy_host 0 (one_row_state 6)))) \<and>
   0 < length (m_rows (m_e_matrix (one_row_state 3))) \<and>
   0 < length (m_rows (m_l_matrix (one_row_state 3))) \<and>
   0 < length (m_entries (one_row_state 3)) \<and>
   list_all (\<lambda>p. is_int (snd p)) (e_row (one_row_state 3) 0) \<and>
   gcd_of_coeffs (e_row (one_row_state 3) 0) = 2 \<and>
   m_c (m_entries (one_row_state 3) ! 0) = - 3 \<and>
   dio_cut_from_proof_period toy_host (lra (one_row_state 3)) \<noteq> 0 \<and>
   m_f (one_row_state 3) = [] @ 0 # [] \<and>
   normalize_by_gcd_loop toy_host [] (one_row_state 3) = Some (True, one_row_state 3) \<and>
   \<not> is_int (- 3 / (2 :: mpq)) \<and>
   fst (the (normalize_e_by_gcd toy_host 0 (one_row_state 3))) = False \<and>
   fst (the (normalize_by_gcd toy_host (one_row_state 3))) = False \<and>
   m_conflict_index (snd (the (normalize_by_gcd toy_host (one_row_state 3)))) = 0"
proof -
  note h6 = one_row_state_facts[of 6]
  have c6: "1 < (2 :: mpq) \<and> is_int (- 6 / 2)" using is_int_6_2 by simp
  note T6 = normalize_e_by_gcd_spec[OF h6(1) h6(2) h6(3) h6(4) h6(5) h6(6) h6(7) h6(8) h6(9)]
  from T6 c6 obtain s' where
    r6: "normalize_e_by_gcd toy_host 0 (one_row_state 6) = Some (True, s')"
        "e_row s' 0 = map (\<lambda>p. (fst p, snd p / 2)) (e_row (one_row_state 6) 0)"
        "l_row s' 0 = map (\<lambda>p. (fst p, snd p / 2)) (l_row (one_row_state 6) 0)"
        "m_c (m_entries s' ! 0) = - 6 / 2"
        "normalize_by_gcd toy_host (one_row_state 6) = normalize_by_gcd_loop toy_host [] s'"
    by blast
  have e: "map (\<lambda>p. (fst p, snd p / 2)) (e_row (one_row_state 6) 0) = [(0, 1), (1, 2)]"
    and l: "map (\<lambda>p. (fst p, snd p / 2)) (l_row (one_row_state 6) 0) = [(2, 1 / 2)]"
    by (simp_all add: one_row_state_def imp_init_def)
  have a6: "fst (the (normalize_e_by_gcd toy_host 0 (one_row_state 6))) \<and>
   e_row (snd (the (normalize_e_by_gcd toy_host 0 (one_row_state 6)))) 0 = [(0, 1), (1, 2)] \<and>
   l_row (snd (the (normalize_e_by_gcd toy_host 0 (one_row_state 6)))) 0 = [(2, 1 / 2)] \<and>
   m_c (m_entries (snd (the (normalize_e_by_gcd toy_host 0 (one_row_state 6)))) ! 0) = - 3 \<and>
   normalize_by_gcd toy_host (one_row_state 6) =
     Some (True, snd (the (normalize_e_by_gcd toy_host 0 (one_row_state 6))))"
    using r6 unfolding e l by simp
  note h3 = one_row_state_facts[of 3]
  have n3: "\<not> is_int (- 3 / (2 :: mpq))" using not_is_int_3_2 by simp
  have c3: "1 < (2 :: mpq) \<and> \<not> is_int (- 3 / (2 :: mpq))" using n3 by simp
  note T3 = normalize_e_by_gcd_spec[OF h3(1) h3(2) h3(3) h3(4) h3(5) h3(6) h3(7) h3(8) h3(9)]
  from T3 c3 obtain s'' where
    r3: "normalize_e_by_gcd toy_host 0 (one_row_state 3) = Some (False, s'')"
        "normalize_by_gcd toy_host (one_row_state 3) = Some (False, s''\<lparr>m_conflict_index := 0\<rparr>)"
    by blast
  have a3: "fst (the (normalize_e_by_gcd toy_host 0 (one_row_state 3))) = False \<and>
   fst (the (normalize_by_gcd toy_host (one_row_state 3))) = False \<and>
   m_conflict_index (snd (the (normalize_by_gcd toy_host (one_row_state 3)))) = 0"
    using r3 by simp
  show ?thesis
    using h6 c6 a6 h3 n3 a3 by simp
qed

section \<open>A conflict of the normalization changes no row\<close>


lemma explain_fixed_loop_cong:
  fixes s s' :: "'h imp"
  shows "lra s' = lra s \<Longrightarrow> explain_fixed_loop H s' t d = explain_fixed_loop H s t d"
  by (induction t arbitrary: d) (auto simp: is_fixed_def)

lemma explain_fixed_in_meta_term_cong:
  fixes s s' :: "'h imp"
  assumes "lra s' = lra s"
  shows "explain_fixed_in_meta_term H s' t = explain_fixed_in_meta_term H s t"
  by (simp add: explain_fixed_in_meta_term_def explain_fixed_def open_ml_def
      open_ml_loop_cong[OF assms] explain_fixed_loop_cong[OF assms])

text \<open>
  C10. When \<open>normalize_e_by_gcd\<close> returns false on row \<open>ei\<close>, the E-matrix, the
  L-matrix and the entries are those of the state before the call, so the entry invariant
  of row \<open>ei\<close> has the value it had; and after \<open>normalize_by_gcd\<close> has recorded the
  conflict, \<open>explain\<close> walks the L-row of \<open>ei\<close> as it was before the call.
\<close>

theorem normalize_e_by_gcd_conflict_atomic:
  fixes s s' :: "'h imp"
  assumes "normalize_e_by_gcd H ei s = Some (False, s')" and "ei \<noteq> UINT_MAX"
  shows "m_e_matrix s' = m_e_matrix s \<and>
         m_l_matrix s' = m_l_matrix s \<and>
         m_entries s' = m_entries s \<and>
         entry_invariant H s' ei = entry_invariant H s ei \<and>
         normalize_by_gcd_loop H (ei # ls) s = Some (False, s'\<lparr>m_conflict_index := ei\<rparr>) \<and>
         m_conflict_index (snd (the (normalize_by_gcd_loop H (ei # ls) s))) = ei \<and>
         entry_invariant H (snd (the (normalize_by_gcd_loop H (ei # ls) s))) ei =
           entry_invariant H s ei \<and>
         explain H (snd (the (normalize_by_gcd_loop H (ei # ls) s))) [] =
           flatten (explain_fixed_in_meta_term H s (l_row s ei))"
proof -
  let ?s'' = "s'\<lparr>m_conflict_index := ei\<rparr>"
  note fl = normalize_e_by_gcd_conflict_fields[OF assms(1)]
  have s'': "normalize_by_gcd_loop H (ei # ls) s = Some (False, ?s'')"
    by (rule normalize_by_gcd_loop_conflict[OF assms(1)])
  have inv: "entry_invariant H s' ei = entry_invariant H s ei"
    by (rule entry_invariant_cong[OF fl(4) fl(3) fl(1) fl(5) fl(2) fl(6)])
  have inv'': "entry_invariant H ?s'' ei = entry_invariant H s' ei"
    by (rule entry_invariant_cong) simp_all
  have ex: "explain H ?s'' [] = flatten (explain_fixed_in_meta_term H ?s'' (l_row ?s'' ei))"
    using assms(2) by (simp add: explain_def)
  have lr: "l_row ?s'' ei = l_row s ei" using fl(2) by simp
  have ef: "explain_fixed_in_meta_term H ?s'' (l_row s ei) =
            explain_fixed_in_meta_term H s (l_row s ei)"
    by (rule explain_fixed_in_meta_term_cong) (simp add: fl(6))
  have ex': "explain H ?s'' [] = flatten (explain_fixed_in_meta_term H s (l_row s ei))"
    unfolding ex lr ef ..
  show ?thesis
    unfolding s'' using fl(1) fl(2) fl(3) inv inv'' ex' by simp
qed

lemma one_row_state_3_conflict:
  "normalize_e_by_gcd toy_host 0 (one_row_state 3) =
     Some (False, prepare_lia_branch_report 0 2 (- (3 / 2)) (one_row_state 3))"
  by (simp add: normalize_e_by_gcd_def one_row_state_def imp_init_def one_row_gcd not_is_int_3_2
       toy_host_def toy_empty_def has_fresh_var_def is_fresh_var_def local_to_external_def UINT_MAX_def)

lemma one_row_state_3_explain: "flatten (explain_fixed_in_meta_term toy_host (one_row_state 3) (l_row (one_row_state 3) 0)) = [2]"
  by (simp add: flatten_def explain_fixed_in_meta_term_def explain_fixed_def open_ml_def
      one_row_state_def imp_init_def toy_host_def toy_empty_def assoc_def is_fixed_def mk_join_def)

lemma one_row_state_3_invariant: "entry_invariant toy_host (one_row_state 3) 0"
  by (simp add: entry_invariant_def remove_fresh_vars_def fresh_vars_of_def is_fresh_var_def
      local_to_external_def UINT_MAX_def get_term_from_entry_def remove_fresh_vars_loop.simps
      term_eq_def term_add_def term_scale_def term_to_lar_solver_def local_to_lar_solver_def
      fix_vars_def term_zero_def open_ml_def
      one_row_state_def imp_init_def toy_host_def toy_empty_def assoc_def is_fixed_def)

theorem normalize_e_by_gcd_conflict_atomic_witness:
  "normalize_e_by_gcd toy_host 0 (one_row_state 3) =
     Some (False, prepare_lia_branch_report 0 2 (- (3 / 2)) (one_row_state 3)) \<and>
   (0 :: nat) \<noteq> UINT_MAX \<and>
   m_e_matrix (prepare_lia_branch_report 0 2 (- (3 / 2)) (one_row_state 3)) =
     m_e_matrix (one_row_state 3) \<and>
   m_l_matrix (prepare_lia_branch_report 0 2 (- (3 / 2)) (one_row_state 3)) =
     m_l_matrix (one_row_state 3) \<and>
   m_entries (prepare_lia_branch_report 0 2 (- (3 / 2)) (one_row_state 3)) =
     m_entries (one_row_state 3) \<and>
   m_report_branch (prepare_lia_branch_report 0 2 (- (3 / 2)) (one_row_state 3)) \<and>
   fst (the (normalize_by_gcd_loop toy_host [0] (one_row_state 3))) = False \<and>
   m_conflict_index (snd (the (normalize_by_gcd_loop toy_host [0] (one_row_state 3)))) = 0 \<and>
   entry_invariant toy_host (snd (the (normalize_by_gcd_loop toy_host [0] (one_row_state 3)))) 0 \<and>
   explain toy_host (snd (the (normalize_by_gcd_loop toy_host [0] (one_row_state 3)))) [] = [2]"
proof -
  have h2: "(0 :: nat) \<noteq> UINT_MAX" by (simp add: UINT_MAX_def)
  note T = normalize_e_by_gcd_conflict_atomic[OF one_row_state_3_conflict h2, of "[]"]
  have rb: "m_report_branch (prepare_lia_branch_report 0 2 (- (3 / 2)) (one_row_state 3))"
    by (simp add: prepare_lia_branch_report_def)
  from T have a: "m_e_matrix (prepare_lia_branch_report 0 2 (- (3 / 2)) (one_row_state 3)) =
       m_e_matrix (one_row_state 3)"
    and b: "m_l_matrix (prepare_lia_branch_report 0 2 (- (3 / 2)) (one_row_state 3)) =
       m_l_matrix (one_row_state 3)"
    and c: "m_entries (prepare_lia_branch_report 0 2 (- (3 / 2)) (one_row_state 3)) =
       m_entries (one_row_state 3)"
    and d: "normalize_by_gcd_loop toy_host [0] (one_row_state 3) =
       Some (False, (prepare_lia_branch_report 0 2 (- (3 / 2)) (one_row_state 3))\<lparr>m_conflict_index := 0\<rparr>)"
    and e: "m_conflict_index (snd (the (normalize_by_gcd_loop toy_host [0] (one_row_state 3)))) = 0"
    and f: "entry_invariant toy_host (snd (the (normalize_by_gcd_loop toy_host [0] (one_row_state 3)))) 0 =
       entry_invariant toy_host (one_row_state 3) 0"
    and g: "explain toy_host (snd (the (normalize_by_gcd_loop toy_host [0] (one_row_state 3)))) [] =
       flatten (explain_fixed_in_meta_term toy_host (one_row_state 3) (l_row (one_row_state 3) 0))"
    by blast+
  have d': "fst (the (normalize_by_gcd_loop toy_host [0] (one_row_state 3))) = False"
    unfolding d by simp
  have f': "entry_invariant toy_host (snd (the (normalize_by_gcd_loop toy_host [0] (one_row_state 3)))) 0"
    unfolding f by (rule one_row_state_3_invariant)
  have g': "explain toy_host (snd (the (normalize_by_gcd_loop toy_host [0] (one_row_state 3)))) [] = [2]"
    unfolding g by (rule one_row_state_3_explain)
  show ?thesis
    by (intro conjI) (fact one_row_state_3_conflict h2 a b c rb d' e f' g')+
qed

section \<open>Properties of the brancher\<close>

lemma lra_fix_var: "lra (snd (fix_var H j s)) = lra s"
  by (simp add: fix_var_def)

text \<open>
  C8 (as amended). A branch that \<open>create_branch\<close> makes on a variable \<open>j\<close> carries
  \<open>m_rs = floor(value(j))\<close>. Asserting a branch pushes to the host the bound
  \<open>x[j] \<le> m_rs\<close> when its side is left and the bound \<open>x[j] \<ge> m_rs + 1\<close> when its side
  is right.
\<close>

theorem branch_side_semantics:
  fixes s :: "'h imp"
  shows "(m_j (fst (create_branch H s)) \<noteq> UINT_MAX \<longrightarrow>
            m_rs (fst (create_branch H s)) =
              of_int \<lfloor>get_column_value H (lra (snd (create_branch H s)))
                         (m_j (fst (create_branch H s)))\<rfloor>) \<and>
         lra (snd (add_var_bound_for_branch H b s)) =
           (if m_left b then add_var_bound H (m_j b) LE (m_rs b) (lra s)
            else add_var_bound H (m_j b) GE (m_rs b + 1) (lra s))"
proof -
  have a: "m_j (fst (create_branch H s)) \<noteq> UINT_MAX \<longrightarrow>
            m_rs (fst (create_branch H s)) =
              of_int \<lfloor>get_column_value H (lra (snd (create_branch H s)))
                         (m_j (fst (create_branch H s)))\<rfloor>"
    by (simp add: create_branch_def Let_def)
  have b: "lra (snd (add_var_bound_for_branch H b s)) =
           (if m_left b then add_var_bound H (m_j b) LE (m_rs b) (lra s)
            else add_var_bound H (m_j b) GE (m_rs b + 1) (lra s))"
    by (simp add: add_var_bound_for_branch_def Let_def lra_fix_var)
  show ?thesis using a b by blast
qed

lemma floor_3_2: "\<lfloor>3 / 2 :: rat\<rfloor> = 1"
  by code_simp

lemma branch_state_branch:
  "fst (create_branch toy_host branch_state) =
     \<lparr>m_j = 0, m_rs = 1, m_left = False, m_fully_explored = False\<rparr>"
  by (simp add: create_branch_def branch_state_def imp_init_def toy_host_def toy_empty_def
      Let_def get_branch_score_def resize_def score_def average_def score_less_def
      empty_branch_stats_def UINT_MAX_def assoc_def floor_3_2)

theorem branch_side_semantics_witness:
  "m_j (fst (create_branch toy_host branch_state)) \<noteq> UINT_MAX \<and>
   m_rs (fst (create_branch toy_host branch_state)) = 1 \<and>
   get_column_value toy_host (lra (snd (create_branch toy_host branch_state))) 0 = 3 / 2 \<and>
   toy_log (lra (snd (add_var_bound_for_branch toy_host
       (fst (create_branch toy_host branch_state)) branch_state))) = [(0, GE, 2)]"
proof -
  note T = branch_side_semantics[of toy_host branch_state "fst (create_branch toy_host branch_state)"]
  have v: "get_column_value toy_host (lra (snd (create_branch toy_host branch_state))) 0 = 3 / 2"
    by (simp add: create_branch_def branch_state_def imp_init_def toy_host_def toy_empty_def
      Let_def get_branch_score_def resize_def score_def average_def score_less_def
      empty_branch_stats_def UINT_MAX_def assoc_def floor_3_2)
  have l: "toy_log (add_var_bound toy_host 0 GE 2 (lra branch_state)) = [(0, GE, 2)]"
    by (simp add: branch_state_def imp_init_def toy_host_def toy_empty_def)
  show ?thesis
    using T v l by (simp add: branch_state_branch UINT_MAX_def)
qed

text \<open>
  C8 as stated fails on the right side: for the branch on column 0 with value \<open>3/2\<close>,
  \<open>m_rs\<close> is 1 and the bound pushed to the host is \<open>x0 \<ge> 2\<close>, not \<open>x0 \<ge> 1\<close>.
\<close>

theorem branch_right_side_counterexample:
  "fst (create_branch toy_host branch_state) =
     \<lparr>m_j = 0, m_rs = 1, m_left = False, m_fully_explored = False\<rparr> \<and>
   toy_log (lra (snd (add_var_bound_for_branch toy_host
       \<lparr>m_j = 0, m_rs = 1, m_left = False, m_fully_explored = False\<rparr> branch_state)))
     = [(0, GE, 2)] \<and>
   (0, GE, 1) \<notin> set (toy_log (lra (snd (add_var_bound_for_branch toy_host
       \<lparr>m_j = 0, m_rs = 1, m_left = False, m_fully_explored = False\<rparr> branch_state))))"
proof -
  have l: "toy_log (lra (snd (add_var_bound_for_branch toy_host
       \<lparr>m_j = 0, m_rs = 1, m_left = False, m_fully_explored = False\<rparr> branch_state)))
     = [(0, GE, 2)]"
    by (simp add: add_var_bound_for_branch_def branch_state_def imp_init_def
      toy_host_def toy_empty_def Let_def)
  show ?thesis unfolding l using branch_state_branch by simp
qed

section \<open>Properties of the tightener\<close>

lemma floor_less_of_not_int: "\<not> is_int x \<Longrightarrow> of_int \<lfloor>x\<rfloor> < x"
  unfolding is_int_def by (metis floor_less_cancel le_less of_int_floor_le order.strict_iff_order)

lemma ceiling_greater_of_not_int: "\<not> is_int x \<Longrightarrow> x < of_int \<lceil>x\<rceil>"
  unfolding is_int_def
  by (metis ceiling_altdef le_of_int_ceiling less_le of_int_floor_cancel)

lemma tightened_upper_below:
  fixes g :: mpq
  assumes "0 < g" "\<not> is_int ((rs - c) / g)"
  shows "g * of_int \<lfloor>(rs - c) / g\<rfloor> + c < rs"
proof -
  have "g * of_int \<lfloor>(rs - c) / g\<rfloor> < g * ((rs - c) / g)"
    by (rule mult_strict_left_mono[OF floor_less_of_not_int[OF assms(2)] assms(1)])
  also have "\<dots> = rs - c" using assms(1) by simp
  finally show ?thesis by simp
qed

lemma tightened_lower_above:
  fixes g :: mpq
  assumes "0 < g" "\<not> is_int ((rs - c) / g)"
  shows "rs < g * of_int \<lceil>(rs - c) / g\<rceil> + c"
proof -
  have "g * ((rs - c) / g) < g * of_int \<lceil>(rs - c) / g\<rceil>"
    by (rule mult_strict_left_mono[OF ceiling_greater_of_not_int[OF assms(2)] assms(1)])
  moreover have "g * ((rs - c) / g) = rs - c" using assms(1) by simp
  ultimately show ?thesis by simp
qed

text \<open>
  C3. Let the work vector have gcd \<open>g > 1\<close> and let the host have a bound \<open>rs\<close> of the
  kind asked on column \<open>j\<close>, with \<open>rs' = (rs - m_c) / g\<close> not an integer. Then
  \<open>tighten_bounds_for_non_trivial_gcd\<close> pushes to the host, with some dependency, the
  upper bound \<open>g * floor(rs') + m_c\<close> of kind \<open>LE\<close> (for the upper bound) or the lower
  bound \<open>g * ceil(rs') + m_c\<close> of kind \<open>GE\<close> (for the lower bound), and asks the host
  for a feasible solution. The new bound is strictly tighter than \<open>rs\<close>. If the status
  the host answers is below \<open>FEASIBLE\<close> and is not \<open>CANCELLED\<close>, the result is a
  conflict and \<open>m_infeas_explanation\<close> is the explanation of the host; otherwise there
  is no conflict.
\<close>

theorem tighten_bounds_for_non_trivial_gcd_spec:
  fixes s :: "'h imp"
  assumes "has_bound_of_type H (lra s) j is_upper = Some (b_dep, rs, is_strict)"
      and "1 < g" and "\<not> is_int ((rs - imp_m_c s) / g)"
      and "bound = g * (if is_upper then of_int \<lfloor>(rs - imp_m_c s) / g\<rfloor>
                        else of_int \<lceil>(rs - imp_m_c s) / g\<rceil>) + imp_m_c s"
  shows "\<exists>dep. let h1 = update_column_type_and_bound H j (if is_upper then LE else GE) bound dep (lra s);
                   st = fst (find_feasible_solution H h1);
                   h2 = snd (find_feasible_solution H h1);
                   r = tighten_bounds_for_non_trivial_gcd H g j is_upper s
         in lra (snd r) = h2 \<and>
            (st < FEASIBLE H \<and> st \<noteq> CANCELLED H \<longrightarrow>
                 fst r \<and> m_infeas_explanation (snd r) = get_infeasibility_explanation H h2) \<and>
            (\<not> (st < FEASIBLE H \<and> st \<noteq> CANCELLED H) \<longrightarrow> \<not> fst r) \<and>
            (if is_upper then bound < rs else rs < bound)"
proof -
  let ?ub = "(rs - imp_m_c s) / g"
  let ?dep = "mk_join (mk_join (mk_join (mk_join b_dep (explain_fixed_in_meta_term H s (m_tmp_l s)))
                (if is_upper then get_column_upper_bound_witness H (lra s) j
                 else get_column_lower_bound_witness H (lra s) j))
                (explain_fixed H s (get_term H (lra s) j)))
                (get_bound_constraint_witnesses_for_column H (lra s) j)"
  have r: "tighten_bounds_for_non_trivial_gcd H g j is_upper s =
             tighten_bound_kind H g j ?ub is_upper b_dep s"
    using assms(1,3) by (simp add: tighten_bounds_for_non_trivial_gcd_def Let_def)
  have gpos: "0 < g" using assms(2) by simp
  have tight: "if is_upper then bound < rs else rs < bound"
    using tightened_upper_below[OF gpos assms(3)] tightened_lower_above[OF gpos assms(3)]
          assms(4) by simp
  have b: "g * (if is_upper then of_int \<lfloor>?ub\<rfloor> else of_int \<lceil>?ub\<rceil>) + imp_m_c s = bound"
    using assms(4) by simp
  show ?thesis
    apply (rule exI[of _ ?dep])
    unfolding r
    using tight
    by (cases "find_feasible_solution H
          (update_column_type_and_bound H j (if is_upper then LE else GE) bound ?dep (lra s))")
       (auto simp: tighten_bound_kind_def Let_def b split: if_splits)
qed


lemma tighten_state_arith:
  "\<not> is_int (9 / 5)" "\<lfloor>9 / 5 :: rat\<rfloor> = 1" "\<not> is_int (1 / 5)" "\<lceil>1 / 5 :: rat\<rceil> = 1"
  by code_simp+

theorem tighten_bounds_for_non_trivial_gcd_spec_witness:
  "has_bound_of_type toy_host (lra (tighten_state 1)) 2 True = Some ([2], 9, False) \<and>
   1 < (5 :: mpq) \<and> \<not> is_int ((9 - imp_m_c (tighten_state 1)) / 5) \<and>
   (5 :: mpq) = 5 * (if True then of_int \<lfloor>(9 - imp_m_c (tighten_state 1)) / 5\<rfloor>
                     else of_int \<lceil>(9 - imp_m_c (tighten_state 1)) / 5\<rceil>) + imp_m_c (tighten_state 1) \<and>
   fst (tighten_bounds_for_non_trivial_gcd toy_host 5 2 True (tighten_state 1)) \<and>
   toy_log (lra (snd (tighten_bounds_for_non_trivial_gcd toy_host 5 2 True (tighten_state 1))))
     = [(2, LE, 5)] \<and>
   m_infeas_explanation (snd (tighten_bounds_for_non_trivial_gcd toy_host 5 2 True (tighten_state 1)))
     = [2]"
proof -
  have h1: "has_bound_of_type toy_host (lra (tighten_state 1)) 2 True = Some ([2], 9, False)"
    by (simp add: tighten_state_def imp_init_def toy_host_def toy_empty_def)
  have h2: "1 < (5 :: mpq)" by simp
  have c0: "imp_m_c (tighten_state 1) = 0" by (simp add: tighten_state_def imp_init_def)
  have h3: "\<not> is_int ((9 - imp_m_c (tighten_state 1)) / 5)"
    unfolding c0 using tighten_state_arith(1) by simp
  have h4: "(5 :: mpq) = 5 * (if True then of_int \<lfloor>(9 - imp_m_c (tighten_state 1)) / 5\<rfloor>
                     else of_int \<lceil>(9 - imp_m_c (tighten_state 1)) / 5\<rceil>) + imp_m_c (tighten_state 1)"
    unfolding c0 using tighten_state_arith(2) by simp
  from tighten_bounds_for_non_trivial_gcd_spec[OF h1 h2 h3 h4]
  obtain dep where T:
    "let h1 = update_column_type_and_bound toy_host 2 (if True then LE else GE) 5 dep (lra (tighten_state 1));
         st = fst (find_feasible_solution toy_host h1);
         h2 = snd (find_feasible_solution toy_host h1);
         r = tighten_bounds_for_non_trivial_gcd toy_host 5 2 True (tighten_state 1)
     in lra (snd r) = h2 \<and>
        (st < FEASIBLE toy_host \<and> st \<noteq> CANCELLED toy_host \<longrightarrow>
             fst r \<and> m_infeas_explanation (snd r) = get_infeasibility_explanation toy_host h2) \<and>
        (\<not> (st < FEASIBLE toy_host \<and> st \<noteq> CANCELLED toy_host) \<longrightarrow> \<not> fst r) \<and>
        (if True then (5 :: mpq) < 9 else (9 :: mpq) < 5)"
    by blast
  have st: "fst (find_feasible_solution toy_host
              (update_column_type_and_bound toy_host 2 LE 5 dep (lra (tighten_state 1)))) = 1"
    and lg: "toy_log (snd (find_feasible_solution toy_host
              (update_column_type_and_bound toy_host 2 LE 5 dep (lra (tighten_state 1))))) = [(2, LE, 5)]"
    and ex: "get_infeasibility_explanation toy_host (snd (find_feasible_solution toy_host
              (update_column_type_and_bound toy_host 2 LE 5 dep (lra (tighten_state 1))))) = [2]"
    and fc: "FEASIBLE toy_host = 6" "CANCELLED toy_host = 10"
    by (simp_all add: tighten_state_def imp_init_def toy_host_def toy_empty_def)
  show ?thesis
    using T h1 h3 h4 unfolding Let_def by (simp add: st lg ex fc)
qed

section \<open>The iteration budget\<close>

lemma budget_normalize_e_by_gcd:
  "normalize_e_by_gcd H ei s = Some (ok, s') \<Longrightarrow> budget s' = budget s"
  by (auto simp: normalize_e_by_gcd_def Let_def prepare_lia_branch_report_def split: if_splits)

lemma budget_normalize_by_gcd_loop:
  "normalize_by_gcd_loop H ls s = Some (ok, s') \<Longrightarrow> budget s' = budget s"
proof (induction ls arbitrary: s)
  case Nil
  then show ?case by simp
next
  case (Cons l ls)
  from Cons.prems obtain ok1 s1 where n: "normalize_e_by_gcd H l s = Some (ok1, s1)"
    by (cases "normalize_e_by_gcd H l s") auto
  note b1 = budget_normalize_e_by_gcd[OF n]
  show ?case
  proof (cases ok1)
    case True
    with Cons.prems n have "normalize_by_gcd_loop H ls s1 = Some (ok, s')" by simp
    from Cons.IH[OF this] b1 show ?thesis by simp
  next
    case False
    with Cons.prems n have "s' = s1\<lparr>m_conflict_index := l\<rparr>" by simp
    with b1 show ?thesis by simp
  qed
qed

lemma budget_normalize_by_gcd:
  "normalize_by_gcd H s = Some (ok, s') \<Longrightarrow> budget s' = budget s"
  unfolding normalize_by_gcd_def by (rule budget_normalize_by_gcd_loop)

lemma budget_eliminate_var_in_row: "budget (eliminate_var_in_row ei j js i s) = budget s"
  by (simp add: eliminate_var_in_row_def Let_def)

lemma budget_eliminate_var_in_f_loop: "budget (eliminate_var_in_f_loop ei j js cells s) = budget s"
  by (induction cells arbitrary: s) (simp_all add: budget_eliminate_var_in_row)

lemma budget_eliminate_var_in_f: "budget (eliminate_var_in_f ei j js s) = budget s"
  by (simp add: eliminate_var_in_f_def budget_eliminate_var_in_f_loop)

lemma budget_move_entry_from_f_to_s: "budget (move_entry_from_f_to_s k h s) = budget s"
  by (simp add: move_entry_from_f_to_s_def Let_def)

lemma budget_fresh_var_step: "budget (fresh_var_step h k ahk s) = budget s"
  by (simp add: fresh_var_step_def Let_def budget_eliminate_var_in_f split: prod.splits)

lemma budget_rewrite_eqs: "budget (rewrite_eqs s) = budget s"
  by (simp add: rewrite_eqs_def Let_def budget_eliminate_var_in_f budget_move_entry_from_f_to_s
      budget_fresh_var_step split: prod.splits option.splits)

lemma budget_process_f:
  fixes s :: "'h imp"
  assumes "process_f H s = Some (r, s')"
  shows "budget s' = budget s"
proof -
  have "budget (snd (r, s')) = budget s"
  proof (rule process_f.raw_induct[where P = "\<lambda>H s rs. budget (snd rs) = budget s", OF _ assms],
         goal_cases)
    case (1 f H s rs)
    note IH = 1(1) and body = 1(2)
    show ?case
    proof (cases "m_f s = []")
      case True
      with body show ?thesis by auto
    next
      case False
      from body False obtain ok s1 where n: "normalize_by_gcd H s = Some (ok, s1)"
        by (cases "normalize_by_gcd H s") auto
      note b1 = budget_normalize_by_gcd[OF n]
      show ?thesis
      proof (cases ok)
        case False': False
        with body False n b1 show ?thesis by (auto split: if_splits)
      next
        case True
        show ?thesis
        proof (cases "m_conflict_index (rewrite_eqs s1) \<noteq> UINT_MAX")
          case True': True
          with body False n True b1 show ?thesis
            by (auto simp: Let_def budget_rewrite_eqs)
        next
          case False': False
          with body False n True have "f H (rewrite_eqs s1) = Some rs" by (simp add: Let_def)
          from IH[OF this] b1 show ?thesis by (simp add: budget_rewrite_eqs)
        qed
      qed
    qed
  qed
  then show ?thesis by simp
qed

lemma budget_fill_indexed_work_vector_loop:
  "budget (fill_indexed_work_vector_loop H t s) = budget s"
  by (induction H t s rule: fill_indexed_work_vector_loop.induct) simp_all

lemma budget_fill_indexed_work_vector_from_term:
  "budget (fill_indexed_work_vector_from_term H t s) = budget s"
  by (simp add: fill_indexed_work_vector_from_term_def budget_fill_indexed_work_vector_loop)

lemma budget_subs_front: "budget (fst (subs_front_in_indexed_vector s q)) = budget s"
  by (simp add: subs_front_in_indexed_vector_def Let_def)

lemma budget_subs_indexed_vector_with_S:
  fixes s :: "'h imp"
  assumes "subs_indexed_vector_with_S s q = Some s'"
  shows "budget s' = budget s"
proof (rule subs_indexed_vector_with_S.raw_induct[where P = "\<lambda>s q s'. budget s' = budget s",
        OF _ assms], goal_cases)
  case (1 f s q s')
  show ?case
  proof (cases "q = []")
    case True
    with 1(2) show ?thesis by auto
  next
    case False
    with 1(2) have "f (fst (subs_front_in_indexed_vector s q))
                      (snd (subs_front_in_indexed_vector s q)) = Some s'"
      by (simp add: Let_def)
    from 1(1)[OF this] show ?thesis by (simp add: budget_subs_front)
  qed
qed

lemma budget_handle_constant_term: "budget (handle_constant_term H j s) = budget s"
  by (simp add: handle_constant_term_def handle_constant_term_expl_def Let_def
      split: option.splits prod.splits)

lemma budget_tighten_bound_kind: "budget (snd (tighten_bound_kind H g j ub up dep s)) = budget s"
  by (simp add: tighten_bound_kind_def Let_def split: prod.splits)

lemma budget_tighten_bounds_for_non_trivial_gcd:
  "budget (snd (tighten_bounds_for_non_trivial_gcd H g j up s)) = budget s"
  by (simp add: tighten_bounds_for_non_trivial_gcd_def Let_def budget_tighten_bound_kind
      split: option.splits prod.splits)

lemma budget_tighten_bounds_for_term_column:
  fixes s :: "'h imp"
  assumes "tighten_bounds_for_term_column H j s = Some (r, s')"
  shows "budget s' = budget s"
proof -
  let ?t = "get_term H (lra s) j"
  let ?q = "map (\<lambda>p. lar_solver_to_local s (fst p))
                   (filter (\<lambda>p. \<not> column_is_fixed H (lra s) (fst p)
                                 \<and> can_substitute s (lar_solver_to_local s (fst p))) ?t)"
  show ?thesis
  proof (cases "\<not> all_vars_are_int H s ?t \<or> ?q = []")
    case True
    with assms show ?thesis
      by (auto simp: tighten_bounds_for_term_column_def Let_def split: if_splits)
  next
    case False
    then obtain s1 where s1: "subs_indexed_vector_with_S
            (fill_indexed_work_vector_from_term H ?t s) ?q = Some s1"
      using assms
      by (auto simp: tighten_bounds_for_term_column_def Let_def split: option.splits if_splits)
    have b1: "budget s1 = budget s"
      using budget_subs_indexed_vector_with_S[OF s1]
      by (simp add: budget_fill_indexed_work_vector_from_term)
    obtain r2 s2 where t2: "tighten_bounds_for_non_trivial_gcd H
            (gcd_of_coeffs (m_indexed_work_vector s1)) j True s1 = (r2, s2)"
      by (cases "tighten_bounds_for_non_trivial_gcd H
            (gcd_of_coeffs (m_indexed_work_vector s1)) j True s1")
    have b2: "budget s2 = budget s1"
      using budget_tighten_bounds_for_non_trivial_gcd[of H
              "gcd_of_coeffs (m_indexed_work_vector s1)" j True s1] t2 by simp
    have res: "s' = s1 \<or> s' = handle_constant_term H j s1 \<or> s' = s2 \<or>
               s' = snd (tighten_bounds_for_non_trivial_gcd H
                          (gcd_of_coeffs (m_indexed_work_vector s1)) j False s2)"
      using assms False s1 t2
      by (auto simp: tighten_bounds_for_term_column_def Let_def split: if_splits)
    then show ?thesis
      using b1 b2 budget_handle_constant_term[of H j s1]
            budget_tighten_bounds_for_non_trivial_gcd[of H
              "gcd_of_coeffs (m_indexed_work_vector s1)" j False s2]
      by auto
  qed
qed

lemma budget_tighten_terms_loop:
  fixes s :: "'h imp"
  shows "tighten_terms_loop H js s = Some (r, s') \<Longrightarrow> budget s' = budget s"
proof (induction js arbitrary: s)
  case Nil
  then show ?case by simp
next
  case (Cons j js)
  show ?case
  proof (cases "\<not> column_has_term H (lra s) j \<or> column_is_free H (lra s) j
         \<or> is_fixed H s j \<or> \<not> column_is_int H (lra s) j")
    case True
    with Cons.prems have "tighten_terms_loop H js s = Some (r, s')" by auto
    from Cons.IH[OF this] show ?thesis .
  next
    case False
    with Cons.prems obtain r1 s1 where t: "tighten_bounds_for_term_column H j s = Some (r1, s1)"
      by (auto split: option.splits)
    note b1 = budget_tighten_bounds_for_term_column[OF t]
    show ?thesis
    proof (cases r1)
      case True
      with Cons.prems False t b1 show ?thesis by auto
    next
      case False': False
      with Cons.prems False t have "tighten_terms_loop H js s1 = Some (r, s')" by auto
      from Cons.IH[OF this] b1 show ?thesis by simp
    qed
  qed
qed

lemma budget_process_f_and_tighten_terms:
  fixes s :: "'h imp"
  assumes "process_f_and_tighten_terms H s = Some (r, s')"
  shows "budget s' = budget s"
proof -
  from assms obtain r1 s1 where p: "process_f H s = Some (r1, s1)"
    by (auto simp: process_f_and_tighten_terms_def split: option.splits)
  note b1 = budget_process_f[OF p]
  show ?thesis
  proof (cases "r1 \<noteq> lia_undef")
    case True
    with assms p b1 show ?thesis by (auto simp: process_f_and_tighten_terms_def)
  next
    case False
    with assms p obtain r2 s2 where t: "tighten_terms_with_S H s1 = Some (r2, s2)"
      by (auto simp: process_f_and_tighten_terms_def split: option.splits)
    have b2: "budget s2 = budget s1"
      using budget_tighten_terms_loop[OF t[unfolded tighten_terms_with_S_def]] .
    show ?thesis
      using assms p False t b1 b2
      by (auto simp: process_f_and_tighten_terms_def split: if_splits)
  qed
qed

lemma budget_remove_entry_from_lists: "budget (remove_entry_from_lists ei s) = budget s"
  by (simp add: remove_entry_from_lists_def)

lemma budget_add_entry_to_lists: "budget (add_entry_to_lists ei s) = budget s"
  by (simp add: add_entry_to_lists_def)

lemma budget_transpose_entries: "budget (transpose_entries i k s) = budget s"
  by (simp add: transpose_entries_def Let_def budget_remove_entry_from_lists
      budget_add_entry_to_lists)

lemma budget_remove_last_entry: "budget (remove_last_entry s) = budget s"
  by (simp add: remove_last_entry_def Let_def)

lemma budget_remove_fresh_entry: "budget (fst (remove_fresh_entry xt se)) = budget (fst se)"
  by (simp add: remove_fresh_entry_def Let_def budget_remove_last_entry budget_transpose_entries)

lemma budget_foldr_remove_fresh_entry:
  "budget (fst (foldr remove_fresh_entry xs se)) = budget (fst se)"
  by (induction xs) (simp_all add: budget_remove_fresh_entry)

lemma budget_recalculate_entry_loop:
  "budget (snd (recalculate_entry_loop ei w ds)) = budget (snd ds)"
  by (induction ei w ds rule: recalculate_entry_loop.induct) (simp_all add: Let_def)

lemma budget_recalculate_entry: "budget (recalculate_entry H ei s) = budget s"
  by (simp add: recalculate_entry_def Let_def budget_recalculate_entry_loop)

lemma budget_move_entry_from_s_to_f: "budget (move_entry_from_s_to_f ei s) = budget s"
  by (simp add: move_entry_from_s_to_f_def)

lemma budget_recalculate_one: "budget (recalculate_one H s k) = budget s"
  by (simp add: recalculate_one_def Let_def budget_move_entry_from_s_to_f
      budget_recalculate_entry)

lemma budget_foldl_recalculate_one: "budget (foldl (recalculate_one H) s ks) = budget s"
  by (induction ks arbitrary: s) (simp_all add: budget_recalculate_one)

lemma budget_process_changed_columns:
  "process_changed_columns H s = Some s' \<Longrightarrow> budget s' = budget s"
  by (auto simp: process_changed_columns_def Let_def budget_foldl_recalculate_one
      budget_foldr_remove_fresh_entry split: if_splits)

lemma budget_fill_entry_loop: "budget (fill_entry_loop H ei t s) = budget s"
  by (induction H ei t s rule: fill_entry_loop.induct) (simp_all add: Let_def)

lemma budget_activate_term: "budget (activate_term H s t) = budget s"
  by (simp add: activate_term_def register_columns_to_term_def fill_entry_def Let_def
      budget_fill_entry_loop)

lemma budget_foldl_activate_term: "budget (foldl (activate_term H) s ts) = budget s"
  by (induction ts arbitrary: s) (simp_all add: budget_activate_term)

lemma budget_init:
  "init H s = Some s' \<Longrightarrow> budget s' = budget (s\<lparr>m_number_of_iterations := 0\<rparr>)"
proof -
  assume a: "init H s = Some s'"
  then obtain s1 where p: "process_changed_columns H
             (s\<lparr>m_report_branch := False, m_conflict_index := UINT_MAX,
                m_infeas_explanation := [], lia_term := [], m_number_of_iterations := 0,
                m_branch_stack := [], m_lra_level := 0\<rparr>) = Some s1"
    and s': "s' = (foldl (activate_term H) s1 (m_added_terms s1))\<lparr>m_added_terms := []\<rparr>"
    by (auto simp: init_def split: option.splits)
  have "budget s1 = budget (s\<lparr>m_number_of_iterations := 0\<rparr>)"
    using budget_process_changed_columns[OF p] by (simp add: budget_def)
  then show ?thesis by (simp add: s' budget_foldl_activate_term)
qed

lemma branching_on_undef_loop_count:
  "branching_on_undef_loop H need s = (r, s') \<Longrightarrow>
   m_max_number_of_iterations s' = m_max_number_of_iterations s \<and>
   m_number_of_iterations s < m_number_of_iterations s' \<and>
   m_number_of_iterations s' \<le> max (m_max_number_of_iterations s) (m_number_of_iterations s + 1) \<and>
   m_dio_branch_iterations (stats s') + m_number_of_iterations s
       + (if m_max_number_of_iterations s \<le> m_number_of_iterations s' then 1 else 0)
     = m_dio_branch_iterations (stats s) + m_number_of_iterations s' \<and>
   (m_max_number_of_iterations s \<le> m_number_of_iterations s' \<longrightarrow> r = lia_undef)"
proof (induction H need s arbitrary: r s' rule: branching_on_undef_loop.induct)
  case (1 H need s)
  let ?s1 = "s\<lparr>m_number_of_iterations := m_number_of_iterations s + 1\<rparr>"
  show ?case
  proof (cases "m_number_of_iterations ?s1 < m_max_number_of_iterations ?s1")
    case False
    then have "(r, s') = (lia_undef, undo_branching H ?s1)"
      using "1.prems" by (simp add: Let_def)
    then have r: "r = lia_undef" and s': "s' = undo_branching H ?s1" by simp_all
    have "budget s' = budget ?s1" unfolding s' by (rule budget_undo_branching)
    then show ?thesis using r False by (simp add: budget_def)
  next
    case True
    show ?thesis
    proof (cases "branching_body H need ?s1")
      case (Inl rs)
      then have rs: "rs = (r, s')" using "1.prems" True
        by (subst (asm) branching_on_undef_loop.simps) (simp add: Let_def)
      from budget_branching_body_Inl[OF Inl[unfolded rs]]
      have "budget s' = budget (?s1\<lparr>stats := (stats ?s1)\<lparr>m_dio_branch_iterations :=
                   m_dio_branch_iterations (stats ?s1) + 1\<rparr>\<rparr>)" .
      then show ?thesis using True by (simp add: budget_def)
    next
      case (Inr ns)
      then have rec: "branching_on_undef_loop H (fst ns) (snd ns) = (r, s')"
        using "1.prems" True
        by (subst (asm) branching_on_undef_loop.simps) (simp add: Let_def)
      have body: "branching_body H need ?s1 = Inr (fst ns, snd ns)" using Inr by simp
      from budget_branching_body[OF body]
      have b: "budget (snd ns) = budget (?s1\<lparr>stats := (stats ?s1)\<lparr>m_dio_branch_iterations :=
                   m_dio_branch_iterations (stats ?s1) + 1\<rparr>\<rparr>)" .
      note ih = "1.IH"[OF refl True Inr rec]
      have n: "m_number_of_iterations (snd ns) = m_number_of_iterations s + 1"
        and m: "m_max_number_of_iterations (snd ns) = m_max_number_of_iterations s"
        and d: "m_dio_branch_iterations (stats (snd ns)) = m_dio_branch_iterations (stats s) + 1"
        using b by (simp_all add: budget_def)
      show ?thesis using ih True unfolding n m d by (auto split: if_splits)
    qed
  qed
qed

text \<open>
  C9. In every check that returns, the loop of \<open>branching_on_undef\<close> runs its body at
  most \<open>m_max_number_of_iterations - 1\<close> times: each round counts one in
  \<open>m_dio_branch_iterations\<close> and one in \<open>m_number_of_iterations\<close>, and the test that
  ends the loop counts one more in \<open>m_number_of_iterations\<close>, which never passes the
  bound. The bound is 100 in the initial state; a check that returns \<open>undef\<close> replaces it
  by the larger of 5 and its half, any other check leaves it as it is, so it stays at or
  above 5. When the counter of the loop reaches the bound the check returns \<open>undef\<close>.
\<close>

theorem iteration_budget:
  fixes s :: "'h imp"
  assumes "check H s = Some (r, s')"
  shows "m_max_number_of_iterations (imp_init h) = 100 \<and>
         m_dio_branch_iterations (stats s')
           \<le> m_dio_branch_iterations (stats s) + (m_max_number_of_iterations s - 1) \<and>
         m_dio_branch_iterations (stats s') =
           m_dio_branch_iterations (stats s) +
             (m_number_of_iterations s' -
                (if m_max_number_of_iterations s \<le> m_number_of_iterations s' then 1 else 0)) \<and>
         m_number_of_iterations s' \<le> max (m_max_number_of_iterations s) 1 \<and>
         (r = lia_undef \<longrightarrow>
            m_max_number_of_iterations s' = max 5 (m_max_number_of_iterations s div 2)) \<and>
         (r \<noteq> lia_undef \<longrightarrow> m_max_number_of_iterations s' = m_max_number_of_iterations s) \<and>
         (5 \<le> m_max_number_of_iterations s \<longrightarrow> 5 \<le> m_max_number_of_iterations s') \<and>
         (0 < m_max_number_of_iterations s \<and>
          m_max_number_of_iterations s \<le> m_number_of_iterations s' \<longrightarrow> r = lia_undef)"
proof -
  let ?s0 = "s\<lparr>stats := (stats s)\<lparr>m_dio_calls := m_dio_calls (stats s) + 1\<rparr>\<rparr>"
  from assms obtain s1 where i: "init H ?s0 = Some s1"
    by (auto simp: check_def split: option.splits)
  from assms i obtain r2 s2 where p: "process_f_and_tighten_terms H s1 = Some (r2, s2)"
    by (auto simp: check_def split: option.splits)
  have b1: "budget s1 = budget (s\<lparr>m_number_of_iterations := 0\<rparr>)"
    using budget_init[OF i] by (simp add: budget_def)
  have b2: "budget s2 = budget (s\<lparr>m_number_of_iterations := 0\<rparr>)"
    using budget_process_f_and_tighten_terms[OF p] b1 by simp
  have init100: "m_max_number_of_iterations (imp_init h) = 100" by (simp add: imp_init_def)
  show ?thesis
  proof (cases "r2 = lia_branch \<or> r2 = lia_conflict")
    case True
    with assms i p have "r = r2" "s' = s2" by (auto simp: check_def)
    with True b2 init100 show ?thesis by (auto simp: budget_def)
  next
    case False
    obtain r3 s3 where br: "branching_on_undef H s2 = (r3, s3)"
      by (cases "branching_on_undef H s2")
    let ?sb = "s2\<lparr>m_explanation_of_branches := [], m_number_of_iterations := 0\<rparr>"
    note L = branching_on_undef_loop_count[OF br[unfolded branching_on_undef_def]]
    have m3: "m_max_number_of_iterations s3 = m_max_number_of_iterations s"
      using L b2 by (simp add: budget_def)
    have pos3: "0 < m_number_of_iterations s3" using L by simp
    have le3: "m_number_of_iterations s3 \<le> max (m_max_number_of_iterations s) 1"
      using L b2 by (simp add: budget_def)
    have cnt: "m_dio_branch_iterations (stats s3)
                 + (if m_max_number_of_iterations s \<le> m_number_of_iterations s3 then 1 else 0)
               = m_dio_branch_iterations (stats s) + m_number_of_iterations s3"
      using L b2 by (simp add: budget_def)
    have ex: "m_dio_branch_iterations (stats s3) =
           m_dio_branch_iterations (stats s) +
             (m_number_of_iterations s3 -
                (if m_max_number_of_iterations s \<le> m_number_of_iterations s3 then 1 else 0))"
      using cnt pos3 by (auto split: if_splits)
    have it3: "m_dio_branch_iterations (stats s3)
           \<le> m_dio_branch_iterations (stats s) + (m_max_number_of_iterations s - 1)"
      using cnt le3 pos3 by (auto split: if_splits)
    have ex3: "m_max_number_of_iterations s \<le> m_number_of_iterations s3 \<longrightarrow> r3 = lia_undef"
      using L b2 by (simp add: budget_def)
    show ?thesis
    proof (cases "r3 = lia_sat \<or> r3 = lia_conflict")
      case True
      with assms i p False br have "r = r3" "s' = s3" by (auto simp: check_def Let_def)
      with True m3 it3 ex ex3 le3 init100 show ?thesis by auto
    next
      case False': False
      with assms i p False br have r: "r = lia_undef"
        and s': "s' = s3\<lparr>m_max_number_of_iterations :=
                                max 5 (m_max_number_of_iterations s3 div 2)\<rparr>"
        by (auto simp: check_def Let_def)
      show ?thesis using r m3 it3 ex le3 init100 by (simp add: s')
    qed
  qed
qed

lemma check_initial: "\<exists>x. check toy_host (imp_init toy_empty) = Some (lia_sat, x)"
  by (simp add: check_def init_def process_changed_columns_def entries_to_recalculate_of_def
      changed_terms_of_def fresh_entries_to_remove_of_def imp_init_def toy_empty_def
      process_f_and_tighten_terms_def process_f.simps tighten_terms_with_S_def toy_host_def
      branching_on_undef_def branching_on_undef_loop.simps branching_body_def push_branch_def
      create_branch_def Let_def)

lemma check_budget_state:
  "\<exists>x. check toy_host budget_state = Some (lia_undef, x) \<and>
        m_max_number_of_iterations x = 5 \<and> m_number_of_iterations x = 3 \<and>
        m_dio_branch_iterations (stats x) = 2 \<and> length (m_branch_stack x) = 2"
  by (simp add: check_def init_def process_changed_columns_def entries_to_recalculate_of_def
      changed_terms_of_def fresh_entries_to_remove_of_def imp_init_def toy_empty_def
      process_f_and_tighten_terms_def process_f.simps tighten_terms_with_S_def toy_host_def
      branching_on_undef_def branching_on_undef_loop.simps branching_body_def push_branch_def
      create_branch_def Let_def budget_state_def
      get_branch_score_def resize_def score_def average_def score_less_def
      empty_branch_stats_def UINT_MAX_def assoc_def floor_3_2
      lra_push_def add_var_bound_for_branch_def get_number_of_int_inf_def update_branch_stats_def
      undo_branching_def lra_pop_def)


theorem iteration_budget_witness:
  "check toy_host budget_state = Some (lia_undef, snd (the (check toy_host budget_state))) \<and>
   m_max_number_of_iterations budget_state = 3 \<and>
   m_dio_branch_iterations (stats budget_state) = 0 \<and>
   m_number_of_iterations (snd (the (check toy_host budget_state))) = 3 \<and>
   m_dio_branch_iterations (stats (snd (the (check toy_host budget_state)))) = 2 \<and>
   m_max_number_of_iterations (snd (the (check toy_host budget_state))) = 5 \<and>
   length (m_branch_stack (snd (the (check toy_host budget_state)))) = 2 \<and>
   check toy_host (imp_init toy_empty) =
     Some (lia_sat, snd (the (check toy_host (imp_init toy_empty)))) \<and>
   m_max_number_of_iterations (imp_init toy_empty) = 100 \<and>
   m_dio_branch_iterations (stats (snd (the (check toy_host (imp_init toy_empty))))) \<le> 99 \<and>
   m_max_number_of_iterations (snd (the (check toy_host (imp_init toy_empty)))) = 100"
proof -
  let ?x = "snd (the (check toy_host budget_state))"
  from check_budget_state obtain x where
    x: "check toy_host budget_state = Some (lia_undef, x)"
       "m_number_of_iterations x = 3" "m_dio_branch_iterations (stats x) = 2"
       "length (m_branch_stack x) = 2"
    by blast
  have xx: "?x = x" using x(1) by simp
  have hb: "check toy_host budget_state = Some (lia_undef, ?x)" using x(1) by simp
  have mb: "m_max_number_of_iterations budget_state = 3"
    and ib: "m_dio_branch_iterations (stats budget_state) = 0"
    by (simp_all add: budget_state_def imp_init_def)
  note B = iteration_budget[OF hb, of toy_empty]
  from B have hv: "m_max_number_of_iterations ?x = max 5 (m_max_number_of_iterations budget_state div 2)"
    and cnt: "m_dio_branch_iterations (stats ?x) =
           m_dio_branch_iterations (stats budget_state) +
             (m_number_of_iterations ?x -
                (if m_max_number_of_iterations budget_state \<le> m_number_of_iterations ?x
                 then 1 else 0))"
    by blast+
  have n3: "m_number_of_iterations ?x = 3" unfolding xx by (rule x(2))
  have d2: "m_dio_branch_iterations (stats ?x) = 2" using cnt unfolding n3 mb ib by simp
  have m5: "m_max_number_of_iterations ?x = 5" using hv unfolding mb by simp
  have st: "length (m_branch_stack ?x) = 2" unfolding xx by (rule x(4))
  from check_initial obtain y where y: "check toy_host (imp_init toy_empty) = Some (lia_sat, y)"
    by blast
  have h: "check toy_host (imp_init toy_empty) =
     Some (lia_sat, snd (the (check toy_host (imp_init toy_empty))))"
    using y by simp
  have i0: "m_dio_branch_iterations (stats (imp_init toy_empty)) = 0"
    by (simp add: imp_init_def)
  have m: "m_max_number_of_iterations (imp_init toy_empty) = 100"
    by (simp add: imp_init_def)
  note T = iteration_budget[OF h, of toy_empty]
  from T have a: "m_dio_branch_iterations (stats (snd (the (check toy_host (imp_init toy_empty)))))
           \<le> m_dio_branch_iterations (stats (imp_init toy_empty)) +
              (m_max_number_of_iterations (imp_init toy_empty) - 1)"
    and b: "m_max_number_of_iterations (snd (the (check toy_host (imp_init toy_empty)))) =
            m_max_number_of_iterations (imp_init toy_empty)"
    by auto
  have a': "m_dio_branch_iterations (stats (snd (the (check toy_host (imp_init toy_empty))))) \<le> 99"
    using a unfolding m i0 by simp
  have b': "m_max_number_of_iterations (snd (the (check toy_host (imp_init toy_empty)))) = 100"
    using b unfolding m .
  show ?thesis
    by (intro conjI) (fact hb mb ib n3 d2 m5 st h m a' b')+
qed

section \<open>The cut from a failed normalization\<close>


































end
